theory Spec2Isabelle
  imports Complex_Main "HOL-Library.Sublist"
begin

section \<open>Python strings\<close>

text \<open>
  A Python \<open>str\<close> is modelled as a \<open>string\<close> whose characters are the code points
  0 to 255, one \<open>char\<close> per code point, so that \<open>length\<close> is Python's \<open>len\<close>.
  The character classes below are Python's own on that range: \<open>str.isspace\<close> (also the
  class \<open>\s\<close> of \<open>re\<close> and what \<open>strip\<close> and \<open>split\<close> remove), the decimal digits
  \<open>\d\<close>, \<open>str.isalpha\<close>, the word characters \<open>\w\<close>, \<open>string.punctuation\<close> and
  \<open>str.lower\<close>.
\<close>

definition ord :: "char \<Rightarrow> nat" where
  "ord c = of_char c"

definition isspace :: "char \<Rightarrow> bool" where
  "isspace c = (let n = ord c in (9 \<le> n \<and> n \<le> 13) \<or> (28 \<le> n \<and> n \<le> 32) \<or> n = 133 \<or> n = 160)"

definition isdecimal :: "char \<Rightarrow> bool" where
  "isdecimal c = (let n = ord c in 48 \<le> n \<and> n \<le> 57)"

definition isalpha :: "char \<Rightarrow> bool" where
  "isalpha c = (let n = ord c in
     (65 \<le> n \<and> n \<le> 90) \<or> (97 \<le> n \<and> n \<le> 122) \<or> n = 170 \<or> n = 181 \<or> n = 186 \<or>
     (192 \<le> n \<and> n \<le> 214) \<or> (216 \<le> n \<and> n \<le> 246) \<or> (248 \<le> n \<and> n \<le> 255))"

definition isword :: "char \<Rightarrow> bool" where
  \<comment> \<open>\<open>\w\<close>: alphanumeric (letters, digits, the superscripts and fractions) or underscore\<close>
  "isword c = (let n = ord c in
     isalpha c \<or> isdecimal c \<or> n = 95 \<or> n = 178 \<or> n = 179 \<or> n = 185 \<or> n = 188 \<or> n = 189 \<or> n = 190)"

definition in_punctuation :: "char \<Rightarrow> bool" where
  \<comment> \<open>\<open>c in string.punctuation\<close>: the 32 ASCII punctuation characters\<close>
  "in_punctuation c = (let n = ord c in
     (33 \<le> n \<and> n \<le> 47) \<or> (58 \<le> n \<and> n \<le> 64) \<or> (91 \<le> n \<and> n \<le> 96) \<or> (123 \<le> n \<and> n \<le> 126))"

definition lower_char :: "char \<Rightarrow> char" where
  "lower_char c = (let n = ord c in
     if (65 \<le> n \<and> n \<le> 90) \<or> (192 \<le> n \<and> n \<le> 214) \<or> (216 \<le> n \<and> n \<le> 222)
     then char_of (n + 32) else c)"

definition lower :: "string \<Rightarrow> string" where
  "lower s = map lower_char s"

definition lstrip :: "string \<Rightarrow> string" where
  "lstrip s = dropWhile isspace s"

definition strip :: "string \<Rightarrow> string" where
  "strip s = rev (dropWhile isspace (rev (dropWhile isspace s)))"

fun startswith :: "string \<Rightarrow> string \<Rightarrow> bool" where
  "startswith s [] = True"
| "startswith [] (p # ps) = False"
| "startswith (c # cs) (p # ps) = (if c = p then startswith cs ps else False)"

definition endswith :: "string \<Rightarrow> string \<Rightarrow> bool" where
  "endswith s p = (length p \<le> length s \<and> drop (length s - length p) s = p)"

fun contains :: "string \<Rightarrow> string \<Rightarrow> bool" where
  \<comment> \<open>\<open>sub in s\<close>: \<open>sub\<close> starts at some position of \<open>s\<close>\<close>
  "contains [] sub = (sub = [])"
| "contains (c # cs) sub = (if startswith (c # cs) sub then True else contains cs sub)"

fun any_of :: "('a \<Rightarrow> bool) \<Rightarrow> 'a list \<Rightarrow> bool" where
  \<comment> \<open>\<open>any(p(x) for x in xs)\<close>, which stops at the first hit\<close>
  "any_of p [] = False"
| "any_of p (x # xs) = (if p x then True else any_of p xs)"

fun istartswith :: "string \<Rightarrow> string \<Rightarrow> bool" where
  \<comment> \<open>\<open>s\<close> starts with the lower-case word \<open>w\<close>, letter case ignored\<close>
  "istartswith s [] = True"
| "istartswith [] (p # ps) = False"
| "istartswith (c # cs) (p # ps) = (if lower_char c = p then istartswith cs ps else False)"

fun split_acc :: "string \<Rightarrow> string \<Rightarrow> string list" where
  "split_acc cur [] = (if cur = [] then [] else [cur])"
| "split_acc cur (c # cs) =
     (if isspace c then (if cur = [] then split_acc [] cs else cur # split_acc [] cs)
      else split_acc (cur @ [c]) cs)"

definition str_split :: "string \<Rightarrow> string list" where
  \<comment> \<open>\<open>s.split()\<close>: the maximal runs of non-whitespace characters\<close>
  "str_split s = split_acc [] s"

fun join :: "string \<Rightarrow> string list \<Rightarrow> string" where
  "join sep [] = []"
| "join sep [x] = x"
| "join sep (x # y # ys) = x @ sep @ join sep (y # ys)"

fun count_scan :: "string \<Rightarrow> nat \<Rightarrow> string \<Rightarrow> nat" where
  "count_scan sub skip [] = 0"
| "count_scan sub skip (c # cs) =
     (if 0 < skip then count_scan sub (skip - 1) cs
      else if startswith (c # cs) sub then Suc (count_scan sub (length sub - 1) cs)
      else count_scan sub 0 cs)"

definition str_count :: "string \<Rightarrow> string \<Rightarrow> nat" where
  \<comment> \<open>\<open>s.count(sub)\<close>: the non-overlapping occurrences, scanned from the left\<close>
  "str_count s sub = (if sub = [] then Suc (length s) else count_scan sub 0 s)"

section \<open>Entity pattern engine\<close>

text \<open>
  \<open>EnhancedEntityExtractor\<close>. The regular expressions of \<open>_build_entity_patterns\<close> are
  not interpreted: a compiled pattern is the function from a text to the strings
  \<open>match.group(0)\<close> of \<open>pattern.finditer(text)\<close>, in order, and the library is given by
  \<open>re\<close>, with \<open>re t i\<close> the \<open>i\<close>-th pattern of category \<open>t\<close>. The table keeps the
  categories and the number of patterns of each.
\<close>

type_synonym pattern = "string \<Rightarrow> string list"

type_synonym 'v dict = "(string \<times> 'v) list"

definition entity_patterns :: "(string \<Rightarrow> nat \<Rightarrow> pattern) \<Rightarrow> pattern list dict" where
  "entity_patterns re =
     [(''models'', map (re ''models'') [0..<10]),
      (''datasets'', map (re ''datasets'') [0..<9]),
      (''metrics'', map (re ''metrics'') [0..<6]),
      (''frameworks'', map (re ''frameworks'') [0..<3])]"

definition validate_entity :: "string \<Rightarrow> string \<Rightarrow> string \<Rightarrow> bool" where
  \<comment> \<open>\<open>special_count / len(entity) > 0.3\<close> is a comparison of floats; for the lengths
      2 to 50 that reach it the quotient is either the float 0.3 itself or differs from
      0.3 by at least 1/500, so it decides as the exact comparison does.\<close>
  "validate_entity entity entity_type context =
     (if length entity < 2 \<or> length entity > 50 then False
      else if \<not> any_of isalpha entity then False
      else if (of_nat (length (filter in_punctuation entity)) :: rat) / of_nat (length entity) > 3 / 10
      then False
      else True)"

definition add_entity :: "string list dict \<Rightarrow> string \<Rightarrow> string \<Rightarrow> string list dict" where
  \<comment> \<open>\<open>entities[entity_type].add(entity)\<close> on a \<open>defaultdict(set)\<close>; a set is kept as the
      list of its elements without repetition\<close>
  "add_entity entities entity_type entity =
     (case map_of entities entity_type of
        None \<Rightarrow> entities @ [(entity_type, [entity])]
      | Some s \<Rightarrow> map (\<lambda>(k, v). if k = entity_type then (k, List.insert entity v) else (k, v)) entities)"

definition scan_pattern :: "string \<Rightarrow> string \<Rightarrow> string list dict \<Rightarrow> pattern \<Rightarrow> string list dict" where
  "scan_pattern entity_type text entities pattern =
     fold (\<lambda>m ents. let entity = strip m in
                     if validate_entity entity entity_type text then add_entity ents entity_type entity
                     else ents)
          (pattern text) entities"

definition scan_patterns :: "pattern list dict \<Rightarrow> string \<Rightarrow> string list dict" where
  "scan_patterns table text =
     fold (\<lambda>(entity_type, patterns) ents.
             fold (\<lambda>pattern ents'. scan_pattern entity_type text ents' pattern) patterns ents)
          table []"

definition list_of_set :: "(string \<Rightarrow> nat) \<Rightarrow> string list \<Rightarrow> string list" where
  \<comment> \<open>\<open>list(entity_set)\<close>: Python does not specify the order in which a set is
      enumerated; it is the order of an arbitrary ranking \<open>h\<close> of the elements\<close>
  "list_of_set h s = sort_key h s"

definition rank_entities :: "(string \<Rightarrow> nat) \<Rightarrow> string \<Rightarrow> string list \<Rightarrow> string list" where
  "rank_entities h text entity_set =
     (let entity_list = list_of_set h entity_set;
          sorted_entities = sort_key (\<lambda>e. - int (str_count text e)) entity_list
      in take 15 sorted_entities)"

definition ensure_key :: "string list dict \<Rightarrow> string \<Rightarrow> string list dict" where
  "ensure_key final_entities key =
     (if key \<notin> set (map fst final_entities) then final_entities @ [(key, [])] else final_entities)"

definition extract_entities :: "(string \<Rightarrow> nat \<Rightarrow> pattern) \<Rightarrow> (string \<Rightarrow> nat) \<Rightarrow> string \<Rightarrow> string list dict" where
  "extract_entities re h text =
     (let entities = scan_patterns (entity_patterns re) text;
          final_entities = map (\<lambda>(entity_type, entity_set). (entity_type, rank_entities h text entity_set)) entities
      in fold (\<lambda>key fe. ensure_key fe key)
              [''models'', ''datasets'', ''metrics'', ''frameworks'', ''techniques''] final_entities)"

section \<open>Section segmenter\<close>

text \<open>
  \<open>AdvancedSectionExtractor\<close>. The three regular expressions of \<open>_match_section\<close> are
  interpreted: \<open>^\d+\.?\s*\<close> and \<open>^[ivxlcdm]+\.?\s*\<close> are anchored at the start of the
  string, so \<open>re.sub\<close> replaces at most one match, and each of their parts is greedy
  over a character class that the next part cannot match, so nothing is given back. The
  keywords hold letters and spaces only, so \<open>re.escape(keyword)\<close> matches the keyword
  literally, between two word boundaries \<open>\b\<close>.
\<close>

definition SECTION_KEYWORDS :: "string list dict" where
  "SECTION_KEYWORDS =
     [(''abstract'', [''abstract'']),
      (''introduction'', [''introduction'', ''background'']),
      (''related_work'', [''related work'', ''literature review'', ''prior work'', ''previous work'']),
      (''methodology'', [''method'', ''methodology'', ''approach'', ''model'', ''architecture'',
                         ''proposed method'', ''proposed approach'', ''our approach'', ''our method'']),
      (''experiments'', [''experiment'', ''experimental setup'', ''experimental results'',
                         ''experimental design'', ''evaluation setup'']),
      (''results'', [''results'', ''findings'', ''performance'', ''experimental results'']),
      (''discussion'', [''discussion'', ''analysis'', ''ablation study'', ''ablation studies'']),
      (''conclusion'', [''conclusion'', ''conclusions'', ''concluding remarks'', ''future work'',
                        ''summary'', ''limitations'']),
      (''references'', [''references'', ''bibliography'', ''works cited''])]"

definition is_roman :: "char \<Rightarrow> bool" where
  \<comment> \<open>the class \<open>[ivxlcdm]\<close>\<close>
  "is_roman c = (c \<in> set ''ivxlcdm'')"

definition sub_prefix :: "(char \<Rightarrow> bool) \<Rightarrow> string \<Rightarrow> string" where
  \<comment> \<open>\<open>re.sub(r'^C+\.?\s*', '', s)\<close> for a character class \<open>C\<close>\<close>
  "sub_prefix cls s =
     (if takeWhile cls s = [] then s
      else let r = dropWhile cls s;
               r' = (case r of [] \<Rightarrow> r | c # cs \<Rightarrow> if c = CHR ''.'' then cs else r)
           in dropWhile isspace r')"

definition next_word :: "string \<Rightarrow> bool" where
  \<comment> \<open>whether a word character \<open>\w\<close> comes next\<close>
  "next_word s = (case s of [] \<Rightarrow> False | c # cs \<Rightarrow> isword c)"

definition matches_here :: "string \<Rightarrow> bool \<Rightarrow> string \<Rightarrow> bool" where
  \<comment> \<open>the keyword between two word boundaries \<open>\b\<close>, at the start of \<open>s\<close>;
      \<open>before\<close> tells whether a word character precedes. A boundary has a word
      character on exactly one side.\<close>
  "matches_here keyword before s =
     (if startswith s keyword then
        (before \<noteq> next_word s)
        \<and> ((if keyword = [] then before else isword (last keyword))
             \<noteq> next_word (drop (length keyword) s))
      else False)"

fun search_from :: "string \<Rightarrow> bool \<Rightarrow> string \<Rightarrow> bool" where
  "search_from keyword before [] = matches_here keyword before []"
| "search_from keyword before (c # cs) =
     (if matches_here keyword before (c # cs) then True
      else search_from keyword (isword c) cs)"

definition search_word :: "string \<Rightarrow> string \<Rightarrow> bool" where
  \<comment> \<open>\<open>re.search(r'\b' + re.escape(keyword) + r'\b', s)\<close>\<close>
  "search_word keyword s = search_from keyword False s"

definition keyword_matches :: "string \<Rightarrow> string \<Rightarrow> bool" where
  "keyword_matches text_clean keyword =
     (if startswith text_clean keyword then True
      else if text_clean = keyword then True
      else search_word keyword text_clean)"

fun find_section :: "string list dict \<Rightarrow> string \<Rightarrow> string option" where
  "find_section [] text_clean = None"
| "find_section ((section_name, keywords) # rest) text_clean =
     (if any_of (keyword_matches text_clean) keywords then Some section_name
      else find_section rest text_clean)"

definition match_section :: "string \<Rightarrow> string option" where
  "match_section text_lower =
     (let text_clean = sub_prefix isdecimal text_lower;
          text_clean = sub_prefix is_roman text_clean;
          text_clean = strip text_clean
      in find_section SECTION_KEYWORDS text_clean)"

text \<open>
  A block of \<open>structured_content\<close> as \<open>_extract_block_text\<close> returns it, without its
  bounding box, which \<open>_group_into_sections\<close> does not read.
\<close>

record block =
  block_text :: string
  font_size :: rat
  is_bold :: bool
  is_header :: bool

definition append_section :: "string list dict \<Rightarrow> string \<Rightarrow> string \<Rightarrow> string list dict" where
  \<comment> \<open>\<open>sections[current_section].append(text)\<close> on a \<open>defaultdict(list)\<close>\<close>
  "append_section sections current_section t =
     (case map_of sections current_section of
        None \<Rightarrow> sections @ [(current_section, [t])]
      | Some v \<Rightarrow> map (\<lambda>(k, v). if k = current_section then (k, v @ [t]) else (k, v)) sections)"

fun group_loop :: "block list \<Rightarrow> string \<Rightarrow> string list dict \<Rightarrow> string list dict" where
  "group_loop [] current_section sections = sections"
| "group_loop (item # rest) current_section sections =
     (let t = block_text item;
          text_lower = strip (lower t);
          matched_section = match_section text_lower
      in case matched_section of
           Some m \<Rightarrow>
             if m \<noteq> [] \<and> (is_header item \<or> length t < 80) then group_loop rest m sections
             else if length t < 20 then group_loop rest current_section sections
             else group_loop rest current_section (append_section sections current_section t)
         | None \<Rightarrow>
             if length t < 20 then group_loop rest current_section sections
             else group_loop rest current_section (append_section sections current_section t))"

definition group_into_sections :: "block list \<Rightarrow> string dict" where
  "group_into_sections structured_content =
     (let sections = group_loop structured_content ''introduction'' []
      in map (\<lambda>(k, v). (k, join '' '' v)) (filter (\<lambda>(k, v). v \<noteq> []) sections))"

definition extract_sections_from_pdf :: "block list option \<Rightarrow> string dict" where
  \<comment> \<open>The argument is what the two passes over the PDF produce: \<open>None\<close> when
      reading the file raises (the handler returns the empty dictionary), the text
      blocks in reading order otherwise.\<close>
  "extract_sections_from_pdf parsed =
     (case parsed of
        None \<Rightarrow> []
      | Some structured_content \<Rightarrow>
          let sections = group_into_sections structured_content
          in if ''references'' \<in> set (map fst sections)
             then filter (\<lambda>(k, v). k \<noteq> ''references'') sections
             else sections)"

section \<open>Flowchart extractor\<close>

definition PROCESS_INDICATORS :: "string list" where
  "PROCESS_INDICATORS =
     [''first'', ''second'', ''third'', ''then'', ''next'', ''finally'', ''after'',
      ''step'', ''stage'', ''phase'', ''process'', ''procedure'']"

definition PROCESS_VERBS :: "string list" where
  "PROCESS_VERBS =
     [''train'', ''test'', ''evaluate'', ''collect'', ''preprocess'', ''extract'',
      ''compute'', ''calculate'', ''apply'', ''use'', ''implement'', ''generate'',
      ''propose'', ''develop'', ''design'', ''construct'', ''build'', ''optimize'']"

fun steps_loop :: "string list \<Rightarrow> string list \<Rightarrow> string list \<Rightarrow> string list" where
  "steps_loop [] steps seen = steps"
| "steps_loop (sent # rest) steps seen =
     (let sent_clean = strip sent in
      if \<not> (30 < length sent_clean \<and> length sent_clean < 200) then steps_loop rest steps seen
      else
        let sent_lower = lower sent_clean;
            has_indicator = any_of (\<lambda>ind. contains sent_lower ind) PROCESS_INDICATORS;
            has_verb = any_of (\<lambda>verb. contains sent_lower verb) PROCESS_VERBS
        in if has_indicator \<or> has_verb then
             let step = take 120 sent_clean;
                 step = (if \<not> endswith step ''.'' then step @ ''...'' else step);
                 step_key = lower (take 40 step)
             in if step_key \<notin> set seen then
                  (if length (steps @ [step]) \<ge> 6 then steps @ [step]
                   else steps_loop rest (steps @ [step]) (step_key # seen))
                else steps_loop rest steps seen
           else steps_loop rest steps seen)"

definition extract_steps :: "string list \<Rightarrow> string list" where
  "extract_steps sentences = steps_loop (take 20 sentences) [] []"

fun str_of_nat :: "nat \<Rightarrow> string" where
  "str_of_nat n =
     (if n < 10 then [char_of (48 + n)] else str_of_nat (n div 10) @ [char_of (48 + n mod 10)])"

definition newline :: char where
  "newline = CHR 0x0A"

definition dquote :: char where
  "dquote = CHR 0x22"

definition squote :: char where
  "squote = CHR 0x27"

definition clean_step :: "string \<Rightarrow> string" where
  \<comment> \<open>\<open>step.replace('"', "'").replace('\n', ' ')\<close>\<close>
  "clean_step step =
     map (\<lambda>c. if c = newline then CHR '' '' else c) (map (\<lambda>c. if c = dquote then squote else c) step)"

definition node_line :: "nat \<Rightarrow> string \<Rightarrow> string" where
  "node_line i step =
     ''    S'' @ str_of_nat (i + 1) @ [CHR ''['', dquote] @ clean_step step @ [dquote, CHR '']'', newline]"

definition edge_line :: "nat \<Rightarrow> string" where
  "edge_line i = ''    S'' @ str_of_nat (i + 1) @ '' --> S'' @ str_of_nat (i + 2) @ [newline]"

definition build_mermaid :: "string list \<Rightarrow> string" where
  "build_mermaid steps =
     ''graph TD'' @ [newline]
     @ ''    Start([Start])'' @ [newline]
     @ concat (map (\<lambda>(i, step). node_line i step) (enumerate 0 steps))
     @ ''    End([End])'' @ [newline]
     @ ''    Start --> S1'' @ [newline]
     @ concat (map edge_line [0..<length steps - 1])
     @ ''    S'' @ str_of_nat (length steps) @ '' --> End'' @ [newline]"

definition generate_flowchart :: "(string \<Rightarrow> string list) \<Rightarrow> string \<Rightarrow> string option" where
  \<comment> \<open>\<open>sent_tokenize\<close> stands for \<open>nltk.sent_tokenize\<close>\<close>
  "generate_flowchart sent_tokenize methodology_text =
     (if methodology_text = [] \<or> length methodology_text < 100 then None
      else let sentences = sent_tokenize methodology_text in
        if length sentences < 3 then None
        else let steps = extract_steps sentences in
          if length steps < 2 then None
          else Some (build_mermaid steps))"

section \<open>Summarization pipeline\<close>

subsection \<open>Text cleaning\<close>

text \<open>
  \<open>re.sub(pattern, repl, text)\<close> replaces the non-overlapping matches of the pattern,
  found from left to right. A pattern is given by its matcher: for the character before
  a position (if any) and the text from that position on, the length of the match that
  starts there, if there is one. Every pattern of \<open>preprocess_text\<close> matches at least
  one character.
\<close>

type_synonym matcher = "char option \<Rightarrow> string \<Rightarrow> nat option"

fun sub_scan :: "matcher \<Rightarrow> string \<Rightarrow> char option \<Rightarrow> nat \<Rightarrow> string \<Rightarrow> string" where
  "sub_scan m repl prev skip [] = []"
| "sub_scan m repl prev skip (c # cs) =
     (if 0 < skip then sub_scan m repl (Some c) (skip - 1) cs
      else (case m prev (c # cs) of
              Some (Suc n) \<Rightarrow> repl @ sub_scan m repl (Some c) n cs
            | _ \<Rightarrow> c # sub_scan m repl (Some c) 0 cs))"

definition re_sub :: "matcher \<Rightarrow> string \<Rightarrow> string \<Rightarrow> string" where
  "re_sub m repl s = sub_scan m repl None 0 s"

datatype cite_state = NeedDigit | InDigits | AfterComma

fun cite_scan :: "char \<Rightarrow> cite_state \<Rightarrow> nat \<Rightarrow> string \<Rightarrow> nat option" where
  "cite_scan cl st n [] = None"
| "cite_scan cl NeedDigit n (c # cs) =
     (if isdecimal c then cite_scan cl InDigits (Suc n) cs else None)"
| "cite_scan cl InDigits n (c # cs) =
     (if isdecimal c then cite_scan cl InDigits (Suc n) cs
      else if c = CHR '','' then cite_scan cl AfterComma (Suc n) cs
      else if c = cl then Some (Suc n)
      else None)"
| "cite_scan cl AfterComma n (c # cs) =
     (if isspace c then cite_scan cl AfterComma (Suc n) cs
      else if isdecimal c then cite_scan cl InDigits (Suc n) cs
      else None)"

definition m_citation :: "char \<Rightarrow> char \<Rightarrow> matcher" where
  \<comment> \<open>\<open>\[\d+(?:,\s*\d+)*\]\<close> and \<open>\(\d+(?:,\s*\d+)*\)\<close>: an opening bracket, a number,
      further numbers each after a comma and optional whitespace, the closing bracket\<close>
  "m_citation op cl prev s =
     (case s of [] \<Rightarrow> None | c # cs \<Rightarrow> if c = op then cite_scan cl NeedDigit 1 cs else None)"

definition m_url :: matcher where
  \<comment> \<open>\<open>http[s]?://\S+\<close>\<close>
  "m_url prev s =
     (if startswith s ''http'' then
        let r = drop 4 s;
            r' = (case r of [] \<Rightarrow> r | c # cs \<Rightarrow> if c = CHR ''s'' then cs else r)
        in if startswith r' ''://'' then
             let rest = drop 3 r';
                 run = takeWhile (\<lambda>c. \<not> isspace c) rest
             in if run = [] then None else Some (length s - length rest + length run)
           else None
      else None)"

definition m_email :: matcher where
  \<comment> \<open>\<open>\S+@\S+\<close>: the first \<open>\S+\<close> is greedy and gives characters back up to the last
      \<open>@\<close> that has a non-space character on each side, and the second \<open>\S+\<close> runs to
      the end of the run of non-space characters\<close>
  "m_email prev s =
     (let run = takeWhile (\<lambda>c. \<not> isspace c) s
      in if CHR ''@'' \<in> set (butlast (tl run)) then Some (length run) else None)"

definition ref_tail :: "string \<Rightarrow> nat option" where
  \<comment> \<open>\<open>\.?\s*\d+\<close>\<close>
  "ref_tail s =
     (let r = (case s of [] \<Rightarrow> s | c # cs \<Rightarrow> if c = CHR ''.'' then cs else s);
          r' = dropWhile isspace r;
          d = takeWhile isdecimal r'
      in if d = [] then None else Some (length s - length r' + length d))"

fun first_ref :: "string list \<Rightarrow> string \<Rightarrow> nat option" where
  "first_ref [] s = None"
| "first_ref (w # ws) s =
     (if istartswith s w then
        (case ref_tail (drop (length w) s) of
           Some n \<Rightarrow> Some (length w + n)
         | None \<Rightarrow> first_ref ws s)
      else first_ref ws s)"

definition m_figure :: matcher where
  \<comment> \<open>\<open>\b(fig|figure|table|eq)\.?\s*\d+\<close> with \<open>re.I\<close>: the alternatives are tried in
      order, each with the rest of the pattern; the match starts with a letter, so the
      word boundary asks for no word character before it\<close>
  "m_figure prev s =
     (if (case prev of None \<Rightarrow> False | Some p \<Rightarrow> isword p) then None
      else first_ref [''fig'', ''figure'', ''table'', ''eq''] s)"

definition m_space :: matcher where
  \<comment> \<open>\<open>\s+\<close>\<close>
  "m_space prev s = (let n = length (takeWhile isspace s) in if n = 0 then None else Some n)"

definition preprocess_text :: "string \<Rightarrow> string" where
  "preprocess_text t0 =
     (let t = re_sub (m_citation CHR ''['' CHR '']'') [] t0;
          t = re_sub (m_citation CHR ''('' CHR '')'') [] t;
          t = re_sub m_url [] t;
          t = re_sub m_email [] t;
          t = re_sub m_figure [] t;
          t = re_sub m_space '' '' t
      in strip t)"

subsection \<open>Model handles, failures and the trace of a call\<close>

text \<open>
  The fields of a \<open>HierarchicalSummarizer\<close> that \<open>summarize_section\<close> assigns. A model
  is resident while its field is not \<open>None\<close>; a deleted attribute is \<open>None\<close> as well.
  The device and the keyword model are fixed at construction and belong to the
  environment.
\<close>

record summarizer_state =
  sentence_encoder :: "unit option"
  tokenizer :: "unit option"
  summarizer :: "unit option"
  sum_tokenizer :: "unit option"

datatype error = ModelError | AttributeError

datatype stage = Extractive | Abstractive | Keywords

text \<open>
  The trace of a call is a ghost: it records the state after every assignment to a
  field, and every entry into one of the three stages.
\<close>

datatype event = Assign summarizer_state | Invoke stage

datatype fallback = FailsBeforeAssign | FailsAfterAssign | Succeeds

text \<open>
  The environment of a call: the sentence tokenizer of \<open>nltk\<close>, and what the model
  libraries do. Loading a tokenizer or a model may raise; the retry of a failed model
  load may raise before the field is assigned, or after it (moving the model to the
  device, or halving it). \<open>encode\<close> stands for the encoder's tokenizer, the forward pass
  and the cosine similarities to the mean embedding, and gives the score of each
  quality sentence by its index; \<open>generate\<close> stands for tokenizing, beam search and
  decoding. Both may raise (\<open>None\<close>). \<open>kw_model\<close> is \<open>None\<close> when KeyBERT is not
  installed, and its extraction may raise.
\<close>

record env =
  sent_tokenize :: "string \<Rightarrow> string list"
  encoder_tokenizer_loads :: bool
  encoder_loads :: bool
  encoder_fallback :: fallback
  encode :: "string list \<Rightarrow> (nat \<Rightarrow> rat) option"
  summarizer_tokenizer_loads :: bool
  summarizer_loads :: bool
  summarizer_fallback :: fallback
  generate :: "string \<Rightarrow> nat \<Rightarrow> string option"
  kw_model :: "(string \<Rightarrow> nat \<Rightarrow> string list option) option"

type_synonym 'a action = "summarizer_state \<Rightarrow> event list \<times> summarizer_state \<times> (error + 'a)"

definition pure :: "'a \<Rightarrow> 'a action" where
  "pure x s = ([], s, Inr x)"

definition raise :: "error \<Rightarrow> 'a action" where
  "raise e s = ([], s, Inl e)"

definition then_do :: "'a action \<Rightarrow> ('a \<Rightarrow> 'b action) \<Rightarrow> 'b action" where
  "then_do m f s =
     (case m s of
        (t, s', Inl e) \<Rightarrow> (t, s', Inl e)
      | (t, s', Inr x) \<Rightarrow> (case f x s' of (t', s'', r) \<Rightarrow> (t @ t', s'', r)))"

definition assign :: "(summarizer_state \<Rightarrow> summarizer_state) \<Rightarrow> unit action" where
  "assign upd s = ([Assign (upd s)], upd s, Inr ())"

definition invoke :: "stage \<Rightarrow> unit action" where
  "invoke st s = ([Invoke st], s, Inr ())"

subsection \<open>Loading and unloading\<close>

definition load_sentence_encoder :: "env \<Rightarrow> unit action" where
  "load_sentence_encoder e s =
     (if sentence_encoder s = None then
        (if \<not> encoder_tokenizer_loads e then raise ModelError
         else then_do (assign (\<lambda>s. s\<lparr>tokenizer := Some ()\<rparr>)) (\<lambda>_.
           if encoder_loads e then assign (\<lambda>s. s\<lparr>sentence_encoder := Some ()\<rparr>)
           else (case encoder_fallback e of
                   FailsBeforeAssign \<Rightarrow> raise ModelError
                 | FailsAfterAssign \<Rightarrow>
                     then_do (assign (\<lambda>s. s\<lparr>sentence_encoder := Some ()\<rparr>)) (\<lambda>_. raise ModelError)
                 | Succeeds \<Rightarrow> assign (\<lambda>s. s\<lparr>sentence_encoder := Some ()\<rparr>)))) s
      else pure () s)"

definition unload_sentence_encoder :: "unit action" where
  "unload_sentence_encoder s =
     (if sentence_encoder s \<noteq> None then
        then_do (assign (\<lambda>s. s\<lparr>sentence_encoder := None\<rparr>)) (\<lambda>_.
        then_do (\<lambda>s. if tokenizer s = None then raise AttributeError s
                      else assign (\<lambda>s. s\<lparr>tokenizer := None\<rparr>) s) (\<lambda>_.
        assign (\<lambda>s. s\<lparr>sentence_encoder := None\<rparr>))) s
      else pure () s)"

definition load_summarizer :: "env \<Rightarrow> unit action" where
  "load_summarizer e s =
     (if summarizer s = None then
        (if \<not> summarizer_tokenizer_loads e then raise ModelError
         else then_do (assign (\<lambda>s. s\<lparr>sum_tokenizer := Some ()\<rparr>)) (\<lambda>_.
           if summarizer_loads e then assign (\<lambda>s. s\<lparr>summarizer := Some ()\<rparr>)
           else (case summarizer_fallback e of
                   FailsBeforeAssign \<Rightarrow> raise ModelError
                 | FailsAfterAssign \<Rightarrow>
                     then_do (assign (\<lambda>s. s\<lparr>summarizer := Some ()\<rparr>)) (\<lambda>_. raise ModelError)
                 | Succeeds \<Rightarrow> assign (\<lambda>s. s\<lparr>summarizer := Some ()\<rparr>)))) s
      else pure () s)"

definition unload_summarizer :: "unit action" where
  "unload_summarizer s =
     (if summarizer s \<noteq> None then
        then_do (assign (\<lambda>s. s\<lparr>summarizer := None\<rparr>)) (\<lambda>_.
        then_do (\<lambda>s. if sum_tokenizer s = None then raise AttributeError s
                      else assign (\<lambda>s. s\<lparr>sum_tokenizer := None\<rparr>) s) (\<lambda>_.
        assign (\<lambda>s. s\<lparr>summarizer := None\<rparr>))) s
      else pure () s)"

subsection \<open>The stages\<close>

definition quality_sentence :: "string \<Rightarrow> bool" where
  "quality_sentence s = (30 < length s \<and> length s < 500 \<and> length (str_split s) \<ge> 5)"

definition select_sentences :: "rat \<Rightarrow> (nat \<Rightarrow> rat) \<Rightarrow> string list \<Rightarrow> string list" where
  \<comment> \<open>\<open>int(len(quality_sents) * ratio)\<close> is a product of floats, truncated. For the ratio
      0.4 that \<open>summarize_section\<close> passes it is the floor of the exact product: the float
      0.4 lies above 2/5 by less than 1e-16, and the exact product is an integer or at
      least 1/5 away from one. \<open>np.argsort\<close> orders the indices by ascending score,
      \<open>[-n_select:]\<close> keeps the last \<open>n_select\<close> of them, or all when there are fewer.\<close>
  "select_sentences ratio scores quality_sents =
     (let n_select = max 3 (nat \<lfloor>of_nat (length quality_sents) * ratio\<rfloor>);
          argsort = sort_key scores [0..<length quality_sents];
          top_indices = drop (length argsort - n_select) argsort
      in map (\<lambda>i. quality_sents ! i) (sort top_indices))"

definition extractive_summary :: "env \<Rightarrow> string \<Rightarrow> rat \<Rightarrow> string action" where
  "extractive_summary e t ratio =
     then_do (invoke Extractive) (\<lambda>_.
       let sentences = sent_tokenize e t in
       if length sentences < 3 then pure t
       else
         let quality_sents = filter quality_sentence sentences in
         if quality_sents = [] then pure t
         else
           then_do (load_sentence_encoder e) (\<lambda>_.
           then_do (case encode e quality_sents of
                      None \<Rightarrow> raise ModelError
                    | Some scores \<Rightarrow> pure scores) (\<lambda>scores.
           pure (join '' '' (select_sentences ratio scores quality_sents)))))"

fun split_on :: "char \<Rightarrow> string \<Rightarrow> string list" where
  "split_on sep [] = [[]]"
| "split_on sep (c # cs) =
     (if c = sep then [] # split_on sep cs
      else (case split_on sep cs of [] \<Rightarrow> [[c]] | x # xs \<Rightarrow> (c # x) # xs))"

definition clean_summary :: "string \<Rightarrow> string" where
  "clean_summary summary =
     (let sentences = split_on CHR ''.'' summary;
          sentences = (if length sentences > 1 \<and> length (strip (last sentences)) < 10
                       then butlast sentences else sentences);
          summary = join ''. '' (map strip (filter (\<lambda>s. strip s \<noteq> []) sentences))
      in if summary \<noteq> [] \<and> \<not> endswith summary ''.'' then summary @ ''.'' else summary)"

definition abstractive_summary :: "env \<Rightarrow> string \<Rightarrow> nat \<Rightarrow> string action" where
  "abstractive_summary e t max_length =
     then_do (invoke Abstractive) (\<lambda>_.
       if strip t = [] then pure []
       else
         then_do (load_summarizer e) (\<lambda>_.
         then_do (case generate e t max_length of
                    None \<Rightarrow> raise ModelError
                  | Some summary \<Rightarrow> pure summary) (\<lambda>summary.
         pure (clean_summary summary))))"

definition extract_keywords :: "env \<Rightarrow> string \<Rightarrow> nat \<Rightarrow> string list action" where
  "extract_keywords e t n =
     then_do (invoke Keywords) (\<lambda>_.
       case kw_model e of
         None \<Rightarrow> pure []
       | Some extract \<Rightarrow>
           if t = [] then pure []
           else (case extract t n of None \<Rightarrow> pure [] | Some keywords \<Rightarrow> pure keywords))"

definition summarize_section :: "env \<Rightarrow> string \<Rightarrow> string \<Rightarrow> (string \<times> string list) action" where
  "summarize_section e section_text section_name =
     (let clean_text = preprocess_text section_text in
      if length (str_split clean_text) < 50 then pure (clean_text, [])
      else
        then_do (extractive_summary e clean_text (2 / 5)) (\<lambda>extractive.
        then_do unload_sentence_encoder (\<lambda>_.
        let max_len = (if section_name \<in> set [''introduction'', ''conclusion''] then 200 else 150) in
        then_do (abstractive_summary e extractive max_len) (\<lambda>abstractive.
        then_do unload_summarizer (\<lambda>_.
        then_do (extract_keywords e abstractive 5) (\<lambda>keywords.
        pure (abstractive, keywords)))))))"

section \<open>Invariants and example inputs\<close>

text \<open>
  The invariant of the dictionary built by the pattern scan: its keys are distinct and
  come from the pattern library, every set is held without repetition, and every member
  passed the validator.
\<close>

definition vals_ok :: "(string \<Rightarrow> bool) \<Rightarrow> string list dict \<Rightarrow> bool" where
  "vals_ok P ents = (\<forall>(k, es) \<in> set ents. distinct es \<and> (\<forall>e \<in> set es. P e))"

definition ents_inv :: "string set \<Rightarrow> string list dict \<Rightarrow> bool" where
  "ents_inv K ents = (distinct (map fst ents) \<and> set (map fst ents) \<subseteq> K \<and> vals_ok (\<lambda>e. validate_entity e [] []) ents)"

text \<open>
  An example text with the matches that the first two patterns of the category
  \<open>models\<close> find in it; no other pattern of the library matches it.
\<close>

definition patterns_example :: "string \<Rightarrow> nat \<Rightarrow> pattern" where
  "patterns_example t i x =
     (if t = ''models'' \<and> i = 0 then [''GPT-4'']
      else if t = ''models'' \<and> i = 1 then [''BERT'', ''BERT'']
      else [])"

definition text_example :: string where
  "text_example = ''We use GPT-4 and BERT. BERT is large.''"

text \<open>
  The labels a section can carry inside the segmenter: the initial one and the keys of
  the keyword table.
\<close>

definition section_vocabulary :: "string set" where
  "section_vocabulary = insert ''introduction'' (set (map fst SECTION_KEYWORDS))"

definition no_keyword_in :: "string \<Rightarrow> bool" where
  "no_keyword_in t = list_all (\<lambda>kw. \<not> contains t kw) (concat (map snd SECTION_KEYWORDS))"

text \<open>
  Four blocks of a paper: a header, a paragraph, the header of the references and a
  reference.
\<close>

definition blocks_example :: "block list" where
  "blocks_example =
     [\<lparr>block_text = ''Abstract'', font_size = 14, is_bold = True, is_header = True\<rparr>,
      \<lparr>block_text = ''We study how papers are split.'', font_size = 10, is_bold = False, is_header = False\<rparr>,
      \<lparr>block_text = ''References'', font_size = 14, is_bold = True, is_header = True\<rparr>,
      \<lparr>block_text = ''[1] A. Author. A cited paper.'', font_size = 10, is_bold = False, is_header = False\<rparr>]"

text \<open>
  Two methodology texts, given by their sentences: one whose first sentence has 144
  characters, and one with a sentence too short to be a step. \<open>tokenize_as\<close> is a
  sentence tokenizer that splits the text made of these sentences into them.
\<close>

definition long_sentences :: "string list" where
  "long_sentences =
     [''First, we collect a large corpus of research papers from public archives and remove every duplicate, scanned or truncated document that we find.'',
      ''Then we train the model on the cleaned corpus.'',
      ''Finally, we evaluate the model on a held-out test set.'']"

definition two_step_sentences :: "string list" where
  "two_step_sentences =
     [''We first collect the papers from the archive.'',
      ''The corpus is large.'',
      ''Then we train the model on the cleaned corpus.'']"

definition tokenize_as :: "string list \<Rightarrow> string \<Rightarrow> string list" where
  "tokenize_as sentences t = (if t = join '' '' sentences then sentences else [t])"

text \<open>The text made of the given lines, each ended by a newline.\<close>

definition mermaid_lines :: "string list \<Rightarrow> string" where
  "mermaid_lines ls = concat (map (\<lambda>l. l @ [newline]) ls)"

text \<open>
  A summarizer as the constructor leaves it, and a section of eight sentences, each of
  which passes the quality filter, with the scores an encoder gives them. In
  \<open>models_example\<close> every load succeeds, the tokenizer splits the text made of the
  given sentences into them, and the summarizer and the keyword model return fixed
  outputs. \<open>short_section\<close> is a section of fewer than 50 words with a citation and a
  figure reference. \<open>section_trace\<close> is the trace of summarizing the eight sentences.
\<close>

definition fresh_state :: summarizer_state where
  "fresh_state = \<lparr>sentence_encoder = None, tokenizer = None, summarizer = None, sum_tokenizer = None\<rparr>"

definition section_sentences :: "string list" where
  "section_sentences =
     [''We take the raw text of a paper.'',
      ''We cut the text in to the parts.'',
      ''We rank each part by its own use.'',
      ''We keep the best ones in the set.'',
      ''We feed the set in to the model.'',
      ''It will then make a new short text.'',
      ''We pick the key words out of it.'',
      ''We join all of it in to one page.'']"

definition sentence_scores :: "rat list" where
  "sentence_scores = [1/10, 8/10, 2/10, 7/10, 3/10, 1/10, 9/10, 2/10]"

definition models_example :: "string list \<Rightarrow> env" where
  "models_example sentences =
     \<lparr>sent_tokenize = tokenize_as sentences,
      encoder_tokenizer_loads = True, encoder_loads = True, encoder_fallback = Succeeds,
      encode = (\<lambda>qs. Some (\<lambda>i. sentence_scores ! i)),
      summarizer_tokenizer_loads = True, summarizer_loads = True, summarizer_fallback = Succeeds,
      generate = (\<lambda>t n. Some ''We rank the parts of a paper. We keep''),
      kw_model = Some (\<lambda>t n. Some [''paper'', ''parts''])\<rparr>"

definition short_section :: string where
  "short_section = ''The encoder [1, 2] is described in Fig. 3 of the paper.''"

definition section_trace :: "event list" where
  "section_trace =
     [Invoke Extractive,
      Assign (fresh_state\<lparr>tokenizer := Some ()\<rparr>),
      Assign (fresh_state\<lparr>tokenizer := Some (), sentence_encoder := Some ()\<rparr>),
      Assign (fresh_state\<lparr>tokenizer := Some ()\<rparr>),
      Assign fresh_state,
      Assign fresh_state,
      Invoke Abstractive,
      Assign (fresh_state\<lparr>sum_tokenizer := Some ()\<rparr>),
      Assign (fresh_state\<lparr>sum_tokenizer := Some (), summarizer := Some ()\<rparr>),
      Assign (fresh_state\<lparr>sum_tokenizer := Some ()\<rparr>),
      Assign fresh_state,
      Assign fresh_state,
      Invoke Keywords]"

text \<open>
  The same models with a summarizer whose generation raises, and the state in which
  a call that raised there leaves the object: the summarizer still loaded.
\<close>

definition generation_fails :: env where
  "generation_fails = (models_example section_sentences)\<lparr>generate := (\<lambda>t n. None)\<rparr>"

definition summarizer_left :: summarizer_state where
  "summarizer_left = fresh_state\<lparr>sum_tokenizer := Some (), summarizer := Some ()\<rparr>"

text \<open>
  Both models are resident in a state. A triple \<open>triple P m Q\<close> says of an action
  \<open>m\<close> started in a state where \<open>P\<close> holds that no state recorded in its trace has both
  models resident, and that \<open>Q\<close> holds of the result and the final state when it returns
  without raising.
\<close>

definition both_resident :: "summarizer_state \<Rightarrow> bool" where
  "both_resident s = (sentence_encoder s \<noteq> None \<and> summarizer s \<noteq> None)"

definition triple :: "(summarizer_state \<Rightarrow> bool) \<Rightarrow> 'a action \<Rightarrow> ('a \<Rightarrow> summarizer_state \<Rightarrow> bool) \<Rightarrow> bool" where
  "triple P m Q =
     (\<forall>s. P s \<longrightarrow>
        (case m s of (tr, s', r) \<Rightarrow>
           (\<forall>x. Assign x \<in> set tr \<longrightarrow> \<not> both_resident x)
           \<and> (case r of Inl err \<Rightarrow> True | Inr y \<Rightarrow> Q y s')))"

text \<open>
  \<open>quiet m P Q\<close> says of an action \<open>m\<close> started in a state where \<open>P\<close> holds that its
  trace does not enter keyword extraction, and that \<open>Q\<close> holds of the final state when
  it returns without raising.
\<close>

definition quiet :: "'a action \<Rightarrow> (summarizer_state \<Rightarrow> bool) \<Rightarrow> (summarizer_state \<Rightarrow> bool) \<Rightarrow> bool" where
  "quiet m P Q = (\<forall>s. P s \<longrightarrow> (case m s of (tr, s', r) \<Rightarrow>
       Invoke Keywords \<notin> set tr \<and> (case r of Inl err \<Rightarrow> True | Inr y \<Rightarrow> Q s')))"

section \<open>Properties of the entity pattern engine\<close>

lemma any_of_iff: "any_of p xs \<longleftrightarrow> (\<exists>x \<in> set xs. p x)"
  by (induction xs) auto

lemma validate_entity_args: "validate_entity e t c = validate_entity e t' c'"
  by (simp add: validate_entity_def)

lemma add_entity_keys_map:
  "map fst (add_entity ents k e) = (if k \<in> set (map fst ents) then map fst ents else map fst ents @ [k])"
proof -
  have eq: "map fst (map (\<lambda>(k', v). if k' = k then (k', List.insert e v) else (k', v)) ents) = map fst ents"
    by (induction ents) auto
  show ?thesis
  proof (cases "map_of ents k")
    case None
    then have "k \<notin> set (map fst ents)" by (simp add: map_of_eq_None_iff)
    with None show ?thesis by (simp add: add_entity_def)
  next
    case (Some s)
    then have "k \<in> set (map fst ents)" by (metis map_of_eq_None_iff option.distinct(1) set_map)
    with Some eq show ?thesis by (simp add: add_entity_def)
  qed
qed

lemma add_entity_vals:
  assumes "vals_ok P ents" "P e"
  shows "vals_ok P (add_entity ents k e)"
proof (cases "map_of ents k")
  case None
  with assms show ?thesis by (auto simp: vals_ok_def add_entity_def)
next
  case (Some s)
  let ?m = "map (\<lambda>(k', v). if k' = k then (k', List.insert e v) else (k', v)) ents"
  have "vals_ok P ?m"
    unfolding vals_ok_def
  proof (intro ballI)
    fix x assume "x \<in> set ?m"
    then obtain k0 v0 where in0: "(k0, v0) \<in> set ents"
      and eq: "x = (if k0 = k then (k0, List.insert e v0) else (k0, v0))" by auto
    from in0 assms(1) have ok: "distinct v0" "\<forall>x \<in> set v0. P x" by (auto simp: vals_ok_def)
    show "case x of (k, es) \<Rightarrow> distinct es \<and> (\<forall>e \<in> set es. P e)"
      using eq ok assms(2) by (cases "k0 = k") auto
  qed
  with Some show ?thesis by (simp add: add_entity_def)
qed

lemma add_entity_inv:
  "ents_inv K ents \<Longrightarrow> k \<in> K \<Longrightarrow> validate_entity e t c \<Longrightarrow> ents_inv K (add_entity ents k e)"
  using validate_entity_args[of e t c "[]" "[]"]
  by (auto simp: ents_inv_def add_entity_keys_map intro: add_entity_vals)

lemma scan_pattern_inv:
  "ents_inv K ents \<Longrightarrow> k \<in> K \<Longrightarrow> ents_inv K (scan_pattern k text ents p)"
proof -
  have "ents_inv K ents \<Longrightarrow> k \<in> K \<Longrightarrow>
        ents_inv K (fold (\<lambda>m ents. let entity = strip m in
                     if validate_entity entity k text then add_entity ents k entity
                     else ents) ms ents)" for ms
    by (induction ms arbitrary: ents) (auto simp: Let_def intro: add_entity_inv)
  then show "ents_inv K ents \<Longrightarrow> k \<in> K \<Longrightarrow> ?thesis" by (simp add: scan_pattern_def)
qed

lemma scan_type_inv:
  "ents_inv K ents \<Longrightarrow> k \<in> K \<Longrightarrow>
   ents_inv K (fold (\<lambda>pattern ents'. scan_pattern k text ents' pattern) ps ents)"
  by (induction ps arbitrary: ents) (auto intro: scan_pattern_inv)

lemma scan_table_inv:
  "ents_inv K ents \<Longrightarrow> set (map fst table) \<subseteq> K \<Longrightarrow>
   ents_inv K (fold (\<lambda>(entity_type, patterns) ents.
             fold (\<lambda>pattern ents'. scan_pattern entity_type text ents' pattern) patterns ents) table ents)"
proof (induction table arbitrary: ents)
  case Nil
  then show ?case by simp
next
  case (Cons tp table)
  obtain k ps where tp: "tp = (k, ps)" by (cases tp)
  with Cons.prems have "k \<in> K" by simp
  with Cons.prems(1) have "ents_inv K (fold (\<lambda>pattern ents'. scan_pattern k text ents' pattern) ps ents)"
    by (rule scan_type_inv)
  with Cons.IH[of "fold (\<lambda>pattern ents'. scan_pattern k text ents' pattern) ps ents"] Cons.prems(2) tp
  show ?case by simp
qed

lemma scan_patterns_inv: "ents_inv (set (map fst table)) (scan_patterns table text)"
  unfolding scan_patterns_def by (rule scan_table_inv) (simp_all add: ents_inv_def vals_ok_def)

lemma rank_entities_props:
  assumes "distinct s"
  shows "distinct (rank_entities h text s)"
    and "set (rank_entities h text s) \<subseteq> set s"
    and "length (rank_entities h text s) \<le> 15"
    and "sorted_wrt (\<lambda>a b. str_count text a \<ge> str_count text b) (rank_entities h text s)"
proof -
  let ?l = "sort_key (\<lambda>e. - int (str_count text e)) (list_of_set h s)"
  have d: "distinct ?l" using assms by (simp add: list_of_set_def)
  show "distinct (rank_entities h text s)" using d by (simp add: rank_entities_def Let_def)
  show "set (rank_entities h text s) \<subseteq> set s"
    using set_take_subset[of 15 ?l] by (simp add: rank_entities_def Let_def list_of_set_def)
  show "length (rank_entities h text s) \<le> 15" by (simp add: rank_entities_def Let_def)
  have "sorted (map (\<lambda>e. - int (str_count text e)) ?l)" by (rule sorted_sort_key)
  then have "sorted_wrt (\<lambda>a b. str_count text a \<ge> str_count text b) ?l"
    by (simp add: sorted_wrt_map)
  then show "sorted_wrt (\<lambda>a b. str_count text a \<ge> str_count text b) (rank_entities h text s)"
    by (simp add: rank_entities_def Let_def)
qed

lemma ensure_key_keys:
  "map fst (ensure_key fe key) = (if key \<in> set (map fst fe) then map fst fe else map fst fe @ [key])"
  by (simp add: ensure_key_def)

lemma ensure_key_keys_set: "fst ` set (ensure_key fe key) = insert key (fst ` set fe)"
  by (auto simp: ensure_key_def)

lemma fold_ensure_keys:
  "set (map fst (fold (\<lambda>key fe. ensure_key fe key) ks fe)) = set (map fst fe) \<union> set ks"
proof (induction ks arbitrary: fe)
  case Nil
  then show ?case by simp
next
  case (Cons k ks)
  have "set (map fst (fold (\<lambda>key fe. ensure_key fe key) (k # ks) fe))
        = fst ` set (ensure_key fe k) \<union> set ks"
    using Cons.IH[of "ensure_key fe k"] by simp
  then show ?case by (simp add: ensure_key_keys_set)
qed

lemma fold_ensure_distinct:
  "distinct (map fst fe) \<Longrightarrow> distinct (map fst (fold (\<lambda>key fe. ensure_key fe key) ks fe))"
proof (induction ks arbitrary: fe)
  case Nil
  then show ?case by simp
next
  case (Cons k ks)
  from Cons.prems have "distinct (map fst (ensure_key fe k))"
    by (simp add: ensure_key_def)
  from Cons.IH[OF this] show ?case by simp
qed

lemma ensure_key_vals: "set (ensure_key fe k) \<subseteq> insert (k, []) (set fe)"
  by (auto simp: ensure_key_def)

lemma fold_ensure_vals:
  "set (fold (\<lambda>key fe. ensure_key fe key) ks fe) \<subseteq> set fe \<union> {(k, []) | k. k \<in> set ks}"
proof (induction ks arbitrary: fe)
  case Nil
  then show ?case by simp
next
  case (Cons k ks)
  have "set (fold (\<lambda>key fe. ensure_key fe key) (k # ks) fe)
        \<subseteq> set (ensure_key fe k) \<union> {(k, []) | k. k \<in> set ks}"
    using Cons.IH[of "ensure_key fe k"] by simp
  also have "\<dots> \<subseteq> insert (k, []) (set fe) \<union> {(k, []) | k. k \<in> set ks}"
    using ensure_key_vals[of fe k] by blast
  also have "\<dots> \<subseteq> set fe \<union> {(k', []) | k'. k' \<in> set (k # ks)}" by auto
  finally show ?case .
qed

lemma ranked_keys:
  "map fst (map (\<lambda>(entity_type, entity_set). (entity_type, rank_entities h text entity_set)) ents) = map fst ents"
  by (induction ents) auto

lemma entity_patterns_keys:
  "set (map fst (entity_patterns re)) = {''models'', ''datasets'', ''metrics'', ''frameworks''}"
  by (simp add: entity_patterns_def)

lemma extract_entities_entry:
  assumes "(k, es) \<in> set (extract_entities re h text)"
  shows "es = [] \<or> (\<exists>s. distinct s \<and> (\<forall>e \<in> set s. validate_entity e [] []) \<and> es = rank_entities h text s)"
proof -
  let ?ents = "scan_patterns (entity_patterns re) text"
  let ?fe = "map (\<lambda>(entity_type, entity_set). (entity_type, rank_entities h text entity_set)) ?ents"
  from assms have "(k, es) \<in> set ?fe \<union> {(k, []) | k. k \<in> set [''models'', ''datasets'', ''metrics'', ''frameworks'', ''techniques'']}"
    using fold_ensure_vals[of "[''models'', ''datasets'', ''metrics'', ''frameworks'', ''techniques'']" ?fe]
    unfolding extract_entities_def Let_def by blast
  then consider "(k, es) \<in> set ?fe" | "es = []" by blast
  then show ?thesis
  proof cases
    case 1
    then obtain s where s: "(k, s) \<in> set ?ents" "es = rank_entities h text s" by auto
    have "ents_inv (set (map fst (entity_patterns re))) ?ents" by (rule scan_patterns_inv)
    with s(1) have "distinct s" "\<forall>e \<in> set s. validate_entity e [] []"
      by (auto simp: ents_inv_def vals_ok_def)
    with s(2) show ?thesis by blast
  next
    case 2
    then show ?thesis by simp
  qed
qed

lemma extract_entities_key_set:
  "set (map fst (extract_entities re h text)) = {''models'', ''datasets'', ''metrics'', ''frameworks'', ''techniques''}"
proof -
  let ?ents = "scan_patterns (entity_patterns re) text"
  have "ents_inv (set (map fst (entity_patterns re))) ?ents" by (rule scan_patterns_inv)
  then have sub: "set (map fst ?ents) \<subseteq> {''models'', ''datasets'', ''metrics'', ''frameworks''}"
    unfolding ents_inv_def entity_patterns_keys by blast
  have "set (map fst (extract_entities re h text)) = set (map fst ?ents) \<union> set [''models'', ''datasets'', ''metrics'', ''frameworks'', ''techniques'']"
    unfolding extract_entities_def Let_def fold_ensure_keys ranked_keys ..
  with sub show ?thesis by auto
qed

lemma extract_entities_key_distinct: "distinct (map fst (extract_entities re h text))"
proof -
  let ?ents = "scan_patterns (entity_patterns re) text"
  let ?fe = "map (\<lambda>(entity_type, entity_set). (entity_type, rank_entities h text entity_set)) ?ents"
  have "ents_inv (set (map fst (entity_patterns re))) ?ents" by (rule scan_patterns_inv)
  then have "distinct (map fst ?ents)" unfolding ents_inv_def by blast
  then have "distinct (map fst ?fe)" by (simp only: ranked_keys)
  then show ?thesis unfolding extract_entities_def Let_def by (rule fold_ensure_distinct)
qed

text \<open>
  Claim C6. For every text, the bundle returned by \<open>extract_entities\<close> has exactly the
  five keys models, datasets, metrics, frameworks and techniques, each once; the
  sequence of every category holds pairwise distinct strings, is ordered by descending
  \<open>text.count\<close> of the string in the text, and has at most 15 members. This holds for
  whatever the patterns match and for every enumeration order of the sets.
\<close>

theorem extract_entities_bundle:
  "set (map fst (extract_entities re h text)) = {''models'', ''datasets'', ''metrics'', ''frameworks'', ''techniques''}
   \<and> distinct (map fst (extract_entities re h text))
   \<and> (\<forall>(k, es) \<in> set (extract_entities re h text).
         distinct es \<and> sorted_wrt (\<lambda>a b. str_count text a \<ge> str_count text b) es \<and> length es \<le> 15)"
proof (intro conjI)
  show "\<forall>(k, es) \<in> set (extract_entities re h text).
         distinct es \<and> sorted_wrt (\<lambda>a b. str_count text a \<ge> str_count text b) es \<and> length es \<le> 15"
  proof (intro ballI, clarify)
    fix k es assume "(k, es) \<in> set (extract_entities re h text)"
    from extract_entities_entry[OF this] show "distinct es \<and> sorted_wrt (\<lambda>a b. str_count text a \<ge> str_count text b) es \<and> length es \<le> 15"
      using rank_entities_props by auto
  qed
qed (rule extract_entities_key_set, rule extract_entities_key_distinct)

text \<open>
  Claim C7. The validator accepts a string exactly when its length is between 2 and 50,
  it has an alphabetic character, and at most three tenths of its characters are ASCII
  punctuation; it rejects \<open>@@@x\<close> and accepts \<open>BERT-2\<close>; and every string of every
  category of an entity bundle is one that the validator accepts.
\<close>

theorem validate_entity_accepts:
  "(validate_entity e t c \<longleftrightarrow>
      2 \<le> length e \<and> length e \<le> 50 \<and> (\<exists>x \<in> set e. isalpha x)
      \<and> (of_nat (length (filter in_punctuation e)) :: rat) / of_nat (length e) \<le> 3 / 10)
   \<and> \<not> validate_entity ''@@@x'' t c
   \<and> validate_entity ''BERT-2'' t c
   \<and> (\<forall>(k, es) \<in> set (extract_entities re h text). \<forall>x \<in> set es. validate_entity x k text)"
proof (intro conjI)
  show "validate_entity e t c \<longleftrightarrow>
      2 \<le> length e \<and> length e \<le> 50 \<and> (\<exists>x \<in> set e. isalpha x)
      \<and> (of_nat (length (filter in_punctuation e)) :: rat) / of_nat (length e) \<le> 3 / 10"
    by (auto simp: validate_entity_def any_of_iff)
  show "\<not> validate_entity ''@@@x'' t c"
    by (simp add: validate_entity_def in_punctuation_def ord_def isalpha_def)
  show "validate_entity ''BERT-2'' t c"
    by (simp add: validate_entity_def in_punctuation_def ord_def isalpha_def)
  show "\<forall>(k, es) \<in> set (extract_entities re h text). \<forall>x \<in> set es. validate_entity x k text"
  proof (intro ballI, clarify)
    fix k es x assume "(k, es) \<in> set (extract_entities re h text)" "x \<in> set es"
    with extract_entities_entry[OF this(1)] rank_entities_props(2) have "validate_entity x [] []"
      by fastforce
    then show "validate_entity x k text" by (simp add: validate_entity_def)
  qed
qed

lemma extract_entities_example:
  "extract_entities patterns_example (\<lambda>_. 0) text_example =
     [(''models'', [''BERT'', ''GPT-4'']), (''datasets'', []), (''metrics'', []),
      (''frameworks'', []), (''techniques'', [])]"
  by code_simp

lemma str_count_example: "str_count text_example ''BERT'' = 2 \<and> str_count text_example ''GPT-4'' = 1"
  by code_simp

theorem extract_entities_bundle_witness:
  "(''models'', [''BERT'', ''GPT-4'']) \<in> set (extract_entities patterns_example (\<lambda>_. 0) text_example)
   \<and> distinct [''BERT'', ''GPT-4'']
   \<and> str_count text_example ''BERT'' \<ge> str_count text_example ''GPT-4''
   \<and> length [''BERT'', ''GPT-4''] \<le> 15"
  using extract_entities_bundle [of patterns_example "\<lambda>_. 0" text_example]
  by (simp add: extract_entities_example str_count_example)

theorem validate_entity_accepts_witness:
  "(''models'', [''BERT'', ''GPT-4'']) \<in> set (extract_entities patterns_example (\<lambda>_. 0) text_example)
   \<and> validate_entity ''BERT'' ''models'' text_example
   \<and> validate_entity ''GPT-4'' ''models'' text_example
   \<and> (\<exists>x \<in> set ''BERT-2''. isalpha x)"
  using validate_entity_accepts [of "''BERT-2''" "''models''" text_example patterns_example "\<lambda>_. 0" text_example]
  by (simp add: extract_entities_example isalpha_def ord_def)

section \<open>Properties of the section segmenter\<close>

lemma startswith_refl: "startswith s s"
  by (induction s) auto

lemma startswith_contains: "startswith s p \<Longrightarrow> contains s p"
  by (cases s; cases p) auto

lemma search_from_contains: "search_from kw b s \<Longrightarrow> contains s kw"
proof (induction s arbitrary: b)
  case Nil
  then show ?case by (cases kw) (auto simp: matches_here_def split: if_splits)
next
  case (Cons c cs)
  then show ?case by (auto simp: matches_here_def split: if_splits)
qed

lemma keyword_matches_contains: "keyword_matches t kw \<Longrightarrow> contains t kw"
  by (auto simp: keyword_matches_def search_word_def startswith_refl
           split: if_splits intro: startswith_contains search_from_contains)

lemma keyword_matches_lazy:
  "keyword_matches t kw =
     (if contains t kw then
        (if startswith t kw then True else if t = kw then True else search_word kw t)
      else False)"
  using keyword_matches_contains[of t kw] by (auto simp: keyword_matches_def)

lemma find_section_None:
  "list_all (\<lambda>kw. \<not> contains t kw) (concat (map snd tbl)) \<Longrightarrow> find_section tbl t = None"
  by (induction tbl t rule: find_section.induct)
     (auto simp: any_of_iff list_all_iff dest: keyword_matches_contains)

lemma match_section_NoneI:
  "no_keyword_in (strip (sub_prefix is_roman (sub_prefix isdecimal t))) \<Longrightarrow> match_section t = None"
  unfolding match_section_def Let_def no_keyword_in_def by (rule find_section_None)

lemmas eval_chars = ord_def isspace_def isdecimal_def isalpha_def isword_def is_roman_def
  lower_def lower_char_def strip_def sub_prefix_def

lemma ms_introduction: "match_section ''introduction'' = None"
  by (rule match_section_NoneI) (simp add: eval_chars no_keyword_in_def SECTION_KEYWORDS_def)

lemma ms_methodology: "match_section ''methodology'' = None"
  by (rule match_section_NoneI) (simp add: eval_chars no_keyword_in_def SECTION_KEYWORDS_def)

lemma ms_discussion: "match_section ''discussion'' = None"
  by (rule match_section_NoneI) (simp add: eval_chars no_keyword_in_def SECTION_KEYWORDS_def)

lemma ms_conclusion: "match_section ''conclusion'' = None"
  by (rule match_section_NoneI) (simp add: eval_chars no_keyword_in_def SECTION_KEYWORDS_def)

lemma ms_numbered: "match_section ''1. introduction'' = None"
  by (rule match_section_NoneI) (simp add: eval_chars no_keyword_in_def SECTION_KEYWORDS_def)

text \<open>
  Claim C2. The bare header texts \<open>introduction\<close>, \<open>methodology\<close>, \<open>discussion\<close> and
  \<open>conclusion\<close> are synonyms of the keyword table, and the claim has \<open>_match_section\<close>
  return their category. It returns no match: the pattern written for roman numerals,
  \<open>^[ivxlcdm]+\.?\s*\<close>, removes the leading letters \<open>i\<close>, \<open>m\<close>, \<open>di\<close> and \<open>c\<close> of
  these words, and what is left holds no keyword. The same happens to the numbered
  header \<open>1. introduction\<close>.
\<close>

theorem match_section_bare_headers:
  "match_section ''introduction'' = None \<and> match_section ''methodology'' = None
   \<and> match_section ''discussion'' = None \<and> match_section ''conclusion'' = None
   \<and> match_section ''1. introduction'' = None"
  by (simp add: ms_introduction ms_methodology ms_discussion ms_conclusion ms_numbered)

lemmas eval_match = match_section_def keyword_matches_lazy
  search_word_def matches_here_def next_word_def SECTION_KEYWORDS_def Let_def

lemma ms_abstract: "match_section ''abstract'' = Some ''abstract''"
  by (simp add: eval_chars eval_match)

lemma ms_references: "match_section ''references'' = Some ''references''"
  by (simp add: eval_chars eval_match)

lemma ms_results: "match_section ''results and discussion'' = Some ''results''"
  by (simp add: eval_chars eval_match)

lemma ms_body: "match_section ''we study how papers are split.'' = None"
  by (rule match_section_NoneI) (simp add: eval_chars no_keyword_in_def SECTION_KEYWORDS_def)

lemma ms_cited: "match_section ''[1] a. author. a cited paper.'' = None"
  by (rule match_section_NoneI) (simp add: eval_chars no_keyword_in_def SECTION_KEYWORDS_def)

lemma find_section_key: "find_section tbl t = Some n \<Longrightarrow> n \<in> set (map fst tbl)"
  by (induction tbl t rule: find_section.induct) (auto split: if_splits)

lemma match_section_key: "match_section t = Some n \<Longrightarrow> n \<in> section_vocabulary"
  unfolding match_section_def Let_def section_vocabulary_def
  by (drule find_section_key) simp

lemma append_section_keys:
  "set (map fst (append_section sections k t)) = insert k (set (map fst sections))"
proof -
  have eq: "map fst (map (\<lambda>(k', v). if k' = k then (k', v @ [t]) else (k', v)) sections) = map fst sections"
    by (induction sections) auto
  show ?thesis
  proof (cases "map_of sections k")
    case None
    then show ?thesis by (simp add: append_section_def)
  next
    case (Some v)
    then have "k \<in> set (map fst sections)" by (metis map_of_eq_None_iff option.distinct(1) set_map)
    with Some eq show ?thesis by (auto simp add: append_section_def simp del: map_map set_map)
  qed
qed

lemma group_loop_keys:
  "cur \<in> section_vocabulary \<Longrightarrow> set (map fst sections) \<subseteq> section_vocabulary \<Longrightarrow>
   set (map fst (group_loop items cur sections)) \<subseteq> section_vocabulary"
proof (induction items arbitrary: cur sections)
  case Nil
  then show ?case by simp
next
  case (Cons item items)
  have app: "set (map fst (append_section sections cur (block_text item))) \<subseteq> section_vocabulary"
    using Cons.prems by (simp only: append_section_keys) simp
  show ?case
  proof (cases "match_section (strip (lower (block_text item)))")
    case None
    with Cons.IH[OF Cons.prems(1) app] Cons.IH[OF Cons.prems] show ?thesis
      by (simp add: Let_def)
  next
    case (Some m)
    then have "m \<in> section_vocabulary" by (rule match_section_key)
    with Some Cons.IH[OF this Cons.prems(2)] Cons.IH[OF Cons.prems(1) app] Cons.IH[OF Cons.prems]
    show ?thesis by (simp add: Let_def)
  qed
qed

lemma group_into_sections_keys:
  "set (map fst (group_into_sections content)) \<subseteq> section_vocabulary"
proof -
  have "set (map fst (group_loop content ''introduction'' [])) \<subseteq> section_vocabulary"
    by (rule group_loop_keys) (simp_all add: section_vocabulary_def)
  then show ?thesis by (auto simp: group_into_sections_def Let_def)
qed

lemma section_vocabulary_eq:
  "section_vocabulary - {''references''} =
     {''abstract'', ''introduction'', ''related_work'', ''methodology'', ''experiments'',
      ''results'', ''discussion'', ''conclusion''}"
  by (auto simp: section_vocabulary_def SECTION_KEYWORDS_def)

lemma extract_sections_keys:
  "set (map fst (extract_sections_from_pdf parsed)) \<subseteq> section_vocabulary - {''references''}"
proof (cases parsed)
  case None
  then show ?thesis by (simp add: extract_sections_from_pdf_def)
next
  case (Some content)
  let ?s = "group_into_sections content"
  have keys: "set (map fst ?s) \<subseteq> section_vocabulary" by (rule group_into_sections_keys)
  show ?thesis
  proof (cases "''references'' \<in> set (map fst ?s)")
    case True
    have "set (map fst (filter (\<lambda>(k, v). k \<noteq> ''references'') ?s)) \<subseteq> set (map fst ?s) - {''references''}"
      by (induction ?s) auto
    with keys have "set (map fst (filter (\<lambda>(k, v). k \<noteq> ''references'') ?s)) \<subseteq> section_vocabulary - {''references''}"
      by blast
    with True Some show ?thesis
      by (simp only: extract_sections_from_pdf_def Let_def option.case if_True)
  next
    case False
    with keys have "set (map fst ?s) \<subseteq> section_vocabulary - {''references''}" by blast
    with False Some show ?thesis
      by (simp only: extract_sections_from_pdf_def Let_def option.case if_False)
  qed
qed

text \<open>
  Claim C5. Whatever the PDF holds, also when reading it fails, \<open>references\<close> is not a
  key of the section map that \<open>extract_sections_from_pdf\<close> returns, and every key is one
  of abstract, introduction, related_work, methodology, experiments, results, discussion
  and conclusion.
\<close>

theorem section_map_keys:
  "''references'' \<notin> set (map fst (extract_sections_from_pdf parsed))
   \<and> set (map fst (extract_sections_from_pdf parsed))
       \<subseteq> {''abstract'', ''introduction'', ''related_work'', ''methodology'', ''experiments'',
          ''results'', ''discussion'', ''conclusion''}"
proof
  show "''references'' \<notin> set (map fst (extract_sections_from_pdf parsed))"
    using extract_sections_keys[of parsed] by blast
  show "set (map fst (extract_sections_from_pdf parsed))
       \<subseteq> {''abstract'', ''introduction'', ''related_work'', ''methodology'', ''experiments'',
          ''results'', ''discussion'', ''conclusion''}"
    using extract_sections_keys[of parsed] unfolding section_vocabulary_eq .
qed

lemma lower_examples:
  "strip (lower ''Abstract'') = ''abstract''"
  "strip (lower ''We study how papers are split.'') = ''we study how papers are split.''"
  "strip (lower ''References'') = ''references''"
  "strip (lower ''[1] A. Author. A cited paper.'') = ''[1] a. author. a cited paper.''"
  by code_simp+

lemma group_example:
  "group_into_sections blocks_example =
     [(''abstract'', ''We study how papers are split.''), (''references'', ''[1] A. Author. A cited paper.'')]"
  by (simp add: group_into_sections_def blocks_example_def Let_def lower_examples
        ms_abstract ms_references ms_body ms_cited append_section_def)

lemma sections_example:
  "extract_sections_from_pdf (Some blocks_example) = [(''abstract'', ''We study how papers are split.'')]"
  by (simp add: extract_sections_from_pdf_def group_example)

theorem section_map_keys_witness:
  "map fst (extract_sections_from_pdf (Some blocks_example)) = [''abstract'']
   \<and> ''references'' \<notin> set (map fst (extract_sections_from_pdf (Some blocks_example)))
   \<and> ''references'' \<in> set (map fst (group_into_sections blocks_example))"
  using section_map_keys [of "Some blocks_example"]
  by (simp add: sections_example group_example)

section \<open>Properties of the flowchart extractor\<close>

lemma steps_loop_all:
  assumes "\<forall>s \<in> set steps. length s \<le> 123"
  shows "\<forall>s \<in> set (steps_loop sents steps seen). length s \<le> 123"
  using assms
proof (induction sents arbitrary: steps seen)
  case Nil
  then show ?case by simp
next
  case (Cons sent rest)
  let ?step = "take 120 (strip sent)"
  let ?step' = "if \<not> endswith ?step ''.'' then ?step @ ''...'' else ?step"
  have new: "\<forall>s \<in> set (steps @ [?step']). length s \<le> 123"
    using Cons.prems by auto
  show ?case
    using Cons.IH[OF Cons.prems] Cons.IH[OF new] new
    by (simp add: Let_def del: set_append)
qed

lemma steps_loop_length:
  "length steps < 6 \<Longrightarrow> length (steps_loop sents steps seen) \<le> 6"
proof (induction sents arbitrary: steps seen)
  case Nil
  then show ?case by simp
next
  case (Cons sent rest)
  show ?case
    using Cons.IH[OF Cons.prems] Cons.IH[of "steps @ [x]" for x] Cons.prems
    by (auto simp add: Let_def)
qed

lemma extract_steps_bounds:
  "(\<forall>s \<in> set (extract_steps sentences). length s \<le> 123) \<and> length (extract_steps sentences) \<le> 6"
  using steps_loop_all[of "[]"] steps_loop_length[of "[]"] by (simp add: extract_steps_def)

text \<open>
  Claim C4, as amended. Every step of a flowchart that \<open>generate_flowchart\<close> returns
  has at most 123 characters: the first 120 characters of the sentence and, when these
  do not end with a full stop, an ellipsis of three. A flowchart has two to six steps.
\<close>

theorem flowchart_step_length:
  "generate_flowchart tok t = Some m \<Longrightarrow>
     \<exists>steps. m = build_mermaid steps \<and> 2 \<le> length steps \<and> length steps \<le> 6
           \<and> (\<forall>s \<in> set steps. length s \<le> 123)"
  using extract_steps_bounds[of "tok t"]
  by (auto simp: generate_flowchart_def Let_def split: if_splits)

lemma long_steps:
  "extract_steps long_sentences =
     [''First, we collect a large corpus of research papers from public archives and remove every duplicate, scanned or truncate...'',
      ''Then we train the model on the cleaned corpus.'',
      ''Finally, we evaluate the model on a held-out test set.'']"
  by code_simp

lemma two_steps:
  "extract_steps two_step_sentences =
     [''We first collect the papers from the archive.'',
      ''Then we train the model on the cleaned corpus.'']"
  by code_simp

lemma str_of_nat_digits:
  "str_of_nat (Suc 0) = ''1''" "str_of_nat (Suc (Suc 0)) = ''2''" "str_of_nat 2 = ''2''"
  by code_simp+

lemma build_mermaid_two:
  "build_mermaid [a, b] =
     mermaid_lines
       [''graph TD'',
        ''    Start([Start])'',
        ''    S1['' @ [dquote] @ clean_step a @ [dquote] @ '']'',
        ''    S2['' @ [dquote] @ clean_step b @ [dquote] @ '']'',
        ''    End([End])'',
        ''    Start --> S1'',
        ''    S1 --> S2'',
        ''    S2 --> End'']"
  by (simp add: build_mermaid_def mermaid_lines_def node_line_def edge_line_def str_of_nat_digits
           del: str_of_nat.simps)

lemma clean_step_safe: "newline \<notin> set (clean_step s) \<and> dquote \<notin> set (clean_step s)"
  by (auto simp: clean_step_def newline_def dquote_def squote_def)

lemma split_on_line:
  "sep \<notin> set l \<Longrightarrow> split_on sep (l @ sep # rest) = l # split_on sep rest"
  by (induction l) auto

lemma split_on_mermaid_lines:
  "\<forall>l \<in> set ls. newline \<notin> set l \<Longrightarrow> split_on newline (mermaid_lines ls) = ls @ [[]]"
proof (induction ls)
  case Nil
  show ?case by (simp add: mermaid_lines_def)
next
  case (Cons l ls)
  then have "split_on newline (mermaid_lines ls) = ls @ [[]]" by simp
  moreover have "mermaid_lines (l # ls) = l @ newline # mermaid_lines ls"
    by (simp add: mermaid_lines_def)
  ultimately show ?case using Cons.prems by (simp add: split_on_line)
qed

lemma two_step_lines:
  "split_on newline (mermaid_lines
       [''graph TD'',
        ''    Start([Start])'',
        ''    S1['' @ [dquote] @ clean_step a @ [dquote] @ '']'',
        ''    S2['' @ [dquote] @ clean_step b @ [dquote] @ '']'',
        ''    End([End])'',
        ''    Start --> S1'',
        ''    S1 --> S2'',
        ''    S2 --> End'']) =
     [''graph TD'',
      ''    Start([Start])'',
      ''    S1['' @ [dquote] @ clean_step a @ [dquote] @ '']'',
      ''    S2['' @ [dquote] @ clean_step b @ [dquote] @ '']'',
      ''    End([End])'',
      ''    Start --> S1'',
      ''    S1 --> S2'',
      ''    S2 --> End'',
      '''']"
proof -
  have "\<forall>l \<in> set [''graph TD'',
        ''    Start([Start])'',
        ''    S1['' @ [dquote] @ clean_step a @ [dquote] @ '']'',
        ''    S2['' @ [dquote] @ clean_step b @ [dquote] @ '']'',
        ''    End([End])'',
        ''    Start --> S1'',
        ''    S1 --> S2'',
        ''    S2 --> End'']. newline \<notin> set l"
    using clean_step_safe[of a] clean_step_safe[of b]
    by (auto simp: newline_def dquote_def)
  from split_on_mermaid_lines[OF this] show ?thesis by simp
qed

text \<open>
  Claim C8. \<open>generate_flowchart\<close> returns nothing exactly when the text has fewer than
  100 characters, or has fewer than 3 sentences, or yields fewer than 2 steps. When a
  text of at least 3 sentences yields exactly the two steps \<open>a\<close> and \<open>b\<close>, the graph is
  the header, the four nodes Start, S1, S2 and End, and the three edges from Start to
  S1, from S1 to S2 and from S2 to End, one per line: split at its newlines, the graph
  has these eight lines and nothing after them. The labels of S1 and S2 are the steps
  with every double quote and newline replaced, so that a label holds neither, and
  neither ends its node nor starts a line of its own.
\<close>

theorem flowchart_null_and_two_steps:
  "(generate_flowchart tok t = None \<longleftrightarrow>
      length t < 100 \<or> length (tok t) < 3 \<or> length (extract_steps (tok t)) < 2)
   \<and> (100 \<le> length t \<longrightarrow> 3 \<le> length (tok t) \<longrightarrow> extract_steps (tok t) = [a, b] \<longrightarrow>
        (\<exists>g. generate_flowchart tok t = Some g
           \<and> g = mermaid_lines
                  [''graph TD'',
                   ''    Start([Start])'',
                   ''    S1['' @ [dquote] @ clean_step a @ [dquote] @ '']'',
                   ''    S2['' @ [dquote] @ clean_step b @ [dquote] @ '']'',
                   ''    End([End])'',
                   ''    Start --> S1'',
                   ''    S1 --> S2'',
                   ''    S2 --> End'']
           \<and> split_on newline g =
                  [''graph TD'',
                   ''    Start([Start])'',
                   ''    S1['' @ [dquote] @ clean_step a @ [dquote] @ '']'',
                   ''    S2['' @ [dquote] @ clean_step b @ [dquote] @ '']'',
                   ''    End([End])'',
                   ''    Start --> S1'',
                   ''    S1 --> S2'',
                   ''    S2 --> End'',
                   '''']
           \<and> newline \<notin> set (clean_step a) \<and> dquote \<notin> set (clean_step a)
           \<and> newline \<notin> set (clean_step b) \<and> dquote \<notin> set (clean_step b)))"
proof (intro conjI impI)
  show "generate_flowchart tok t = None \<longleftrightarrow>
      length t < 100 \<or> length (tok t) < 3 \<or> length (extract_steps (tok t)) < 2"
    by (auto simp: generate_flowchart_def Let_def)
next
  assume "100 \<le> length t" "3 \<le> length (tok t)" "extract_steps (tok t) = [a, b]"
  then have g: "generate_flowchart tok t = Some (build_mermaid [a, b])"
    by (auto simp: generate_flowchart_def Let_def)
  show "\<exists>g. generate_flowchart tok t = Some g
           \<and> g = mermaid_lines
                  [''graph TD'',
                   ''    Start([Start])'',
                   ''    S1['' @ [dquote] @ clean_step a @ [dquote] @ '']'',
                   ''    S2['' @ [dquote] @ clean_step b @ [dquote] @ '']'',
                   ''    End([End])'',
                   ''    Start --> S1'',
                   ''    S1 --> S2'',
                   ''    S2 --> End'']
           \<and> split_on newline g =
                  [''graph TD'',
                   ''    Start([Start])'',
                   ''    S1['' @ [dquote] @ clean_step a @ [dquote] @ '']'',
                   ''    S2['' @ [dquote] @ clean_step b @ [dquote] @ '']'',
                   ''    End([End])'',
                   ''    Start --> S1'',
                   ''    S1 --> S2'',
                   ''    S2 --> End'',
                   '''']
           \<and> newline \<notin> set (clean_step a) \<and> dquote \<notin> set (clean_step a)
           \<and> newline \<notin> set (clean_step b) \<and> dquote \<notin> set (clean_step b)"
    by (intro exI conjI, rule g[unfolded build_mermaid_two], rule refl, rule two_step_lines)
       (simp_all add: clean_step_safe)
qed

lemma tokenize_as_join: "tokenize_as ss (join '' '' ss) = ss"
  by (simp add: tokenize_as_def)

lemma example_lengths:
  "length (join '' '' two_step_sentences) = 113" "length two_step_sentences = 3"
  "length (join '' '' long_sentences) = 246" "length long_sentences = 3"
  by (simp_all add: two_step_sentences_def long_sentences_def)

lemma long_text_nonempty: "join '' '' long_sentences \<noteq> []"
  using example_lengths(3) by auto

theorem flowchart_null_and_two_steps_witness:
  "100 \<le> length (join '' '' two_step_sentences)
   \<and> 3 \<le> length (tokenize_as two_step_sentences (join '' '' two_step_sentences))
   \<and> generate_flowchart (tokenize_as two_step_sentences) (join '' '' two_step_sentences) =
       Some (mermaid_lines
               [''graph TD'',
                ''    Start([Start])'',
                ''    S1['' @ [dquote] @ ''We first collect the papers from the archive.'' @ [dquote] @ '']'',
                ''    S2['' @ [dquote] @ ''Then we train the model on the cleaned corpus.'' @ [dquote] @ '']'',
                ''    End([End])'',
                ''    Start --> S1'',
                ''    S1 --> S2'',
                ''    S2 --> End''])
   \<and> generate_flowchart (tokenize_as two_step_sentences) (join '' '' two_step_sentences) \<noteq> None
   \<and> length (split_on newline
               (the (generate_flowchart (tokenize_as two_step_sentences)
                       (join '' '' two_step_sentences)))) = 9"
  using flowchart_null_and_two_steps
          [of "tokenize_as two_step_sentences" "join '' '' two_step_sentences"
              "''We first collect the papers from the archive.''"
              "''Then we train the model on the cleaned corpus.''"]
  by (simp add: tokenize_as_join example_lengths two_steps clean_step_def dquote_def newline_def squote_def)

theorem flowchart_step_length_witness:
  "generate_flowchart (tokenize_as long_sentences) (join '' '' long_sentences) =
     Some (build_mermaid (extract_steps long_sentences))
   \<and> map length (extract_steps long_sentences) = [123, 46, 54]"
  using flowchart_step_length
          [of "tokenize_as long_sentences" "join '' '' long_sentences"
              "build_mermaid (extract_steps long_sentences)"]
  by (auto simp add: generate_flowchart_def tokenize_as_join example_lengths long_steps long_text_nonempty Let_def)

text \<open>
  Claim C4 as stated, with the bound 120, fails on a sentence of 144 characters: its
  step has 123 characters.
\<close>

theorem flowchart_step_length_counterexample:
  "generate_flowchart (tokenize_as long_sentences) (join '' '' long_sentences) =
     Some (build_mermaid
       [''First, we collect a large corpus of research papers from public archives and remove every duplicate, scanned or truncate...'',
        ''Then we train the model on the cleaned corpus.'',
        ''Finally, we evaluate the model on a held-out test set.''])
   \<and> \<not> length ''First, we collect a large corpus of research papers from public archives and remove every duplicate, scanned or truncate...'' \<le> 120"
  by (simp add: generate_flowchart_def tokenize_as_join example_lengths long_steps long_text_nonempty Let_def)

section \<open>Properties of the summarization pipeline\<close>

lemma triple_pure: "(\<And>s. P s \<Longrightarrow> Q x s) \<Longrightarrow> triple P (pure x) Q"
  by (simp add: triple_def pure_def)

lemma triple_raise: "triple P (raise err) Q"
  by (simp add: triple_def raise_def)

lemma triple_invoke: "triple P (invoke st) (\<lambda>_. P)"
  by (simp add: triple_def invoke_def)

lemma triple_assign:
  "(\<And>s. P s \<Longrightarrow> \<not> both_resident (upd s) \<and> Q () (upd s)) \<Longrightarrow> triple P (assign upd) Q"
  by (simp add: triple_def assign_def)

lemma triple_then_do:
  assumes "triple P m Q" and "\<And>x. triple (Q x) (f x) R"
  shows "triple P (then_do m f) R"
  unfolding triple_def
proof (intro allI impI)
  fix s assume P: "P s"
  obtain tr s1 r where m: "m s = (tr, s1, r)" by (cases "m s") auto
  from assms(1) P m have tr: "\<forall>x. Assign x \<in> set tr \<longrightarrow> \<not> both_resident x"
    and post: "case r of Inl err \<Rightarrow> True | Inr y \<Rightarrow> Q y s1"
    by (auto simp: triple_def)
  show "case then_do m f s of (tr, s', r) \<Rightarrow>
           (\<forall>x. Assign x \<in> set tr \<longrightarrow> \<not> both_resident x)
           \<and> (case r of Inl err \<Rightarrow> True | Inr y \<Rightarrow> R y s')"
  proof (cases r)
    case (Inl err)
    with m tr show ?thesis by (simp add: then_do_def)
  next
    case (Inr y)
    obtain tr2 s2 r2 where f: "f y s1 = (tr2, s2, r2)" by (cases "f y s1") auto
    from post Inr have "Q y s1" by simp
    with assms(2)[of y] f have "\<forall>x. Assign x \<in> set tr2 \<longrightarrow> \<not> both_resident x"
      and "case r2 of Inl err \<Rightarrow> True | Inr z \<Rightarrow> R z s2"
      by (auto simp: triple_def)
    with m tr Inr f show ?thesis by (auto simp: then_do_def)
  qed
qed

lemma triple_weaken: "triple P m Q \<Longrightarrow> (\<And>s. P' s \<Longrightarrow> P s) \<Longrightarrow> triple P' m Q"
  by (simp add: triple_def)

lemma triple_cond:
  "\<lbrakk>\<And>s. P s \<Longrightarrow> c s \<Longrightarrow> triple (\<lambda>s'. s' = s) m Q; \<And>s. P s \<Longrightarrow> \<not> c s \<Longrightarrow> triple (\<lambda>s'. s' = s) n Q\<rbrakk>
   \<Longrightarrow> triple P (\<lambda>s. if c s then m s else n s) Q"
  by (auto simp: triple_def)

lemmas action_defs = then_do_def assign_def raise_def pure_def invoke_def

lemma not_Some_unit [simp]: "(x \<noteq> Some ()) \<longleftrightarrow> x = None"
  by (cases x) auto

lemma load_sentence_encoder_triple:
  "triple (\<lambda>s. summarizer s = None) (load_sentence_encoder e) (\<lambda>_ s. summarizer s = None)"
  by (auto simp: triple_def load_sentence_encoder_def action_defs both_resident_def
           split: fallback.splits)

lemma unload_sentence_encoder_triple:
  "triple (\<lambda>s. summarizer s = None) unload_sentence_encoder
          (\<lambda>_ s. summarizer s = None \<and> sentence_encoder s = None)"
  by (auto simp: triple_def unload_sentence_encoder_def action_defs both_resident_def)

lemma load_summarizer_triple:
  "triple (\<lambda>s. sentence_encoder s = None) (load_summarizer e) (\<lambda>_ s. sentence_encoder s = None)"
  by (auto simp: triple_def load_summarizer_def action_defs both_resident_def
           split: fallback.splits)

lemma unload_summarizer_triple:
  "triple (\<lambda>s. sentence_encoder s = None) unload_summarizer
          (\<lambda>_ s. summarizer s = None \<and> sentence_encoder s = None)"
  by (auto simp: triple_def unload_summarizer_def action_defs both_resident_def)

lemma extractive_summary_triple:
  "triple (\<lambda>s. summarizer s = None) (extractive_summary e t ratio) (\<lambda>_ s. summarizer s = None)"
  unfolding extractive_summary_def Let_def
  by (intro triple_then_do[where Q = "\<lambda>_ s. summarizer s = None"] triple_invoke)
     (auto intro!: triple_pure triple_raise load_sentence_encoder_triple
                   triple_then_do[where Q = "\<lambda>_ s. summarizer s = None"]
           split: option.splits)

lemma abstractive_summary_triple:
  "triple (\<lambda>s. sentence_encoder s = None) (abstractive_summary e t n) (\<lambda>_ s. sentence_encoder s = None)"
  unfolding abstractive_summary_def Let_def
  by (intro triple_then_do[where Q = "\<lambda>_ s. sentence_encoder s = None"] triple_invoke)
     (auto intro!: triple_pure triple_raise load_summarizer_triple
                   triple_then_do[where Q = "\<lambda>_ s. sentence_encoder s = None"]
           split: option.splits)

lemma extract_keywords_triple: "triple P (extract_keywords e t n) (\<lambda>_. P)"
  unfolding extract_keywords_def
  by (intro triple_then_do[where Q = "\<lambda>_. P"] triple_invoke)
     (auto intro!: triple_pure split: option.splits)

lemma summarize_section_triple:
  "triple (\<lambda>s. summarizer s = None) (summarize_section e t name) (\<lambda>_ s. summarizer s = None)"
proof (cases "length (str_split (preprocess_text t)) < 50")
  case True
  then show ?thesis by (simp add: summarize_section_def Let_def triple_pure)
next
  case False
  have tail: "triple (\<lambda>s. summarizer s = None \<and> sentence_encoder s = None)
        (then_do (abstractive_summary e x n) (\<lambda>abstractive.
         then_do unload_summarizer (\<lambda>_.
         then_do (extract_keywords e abstractive 5) (\<lambda>keywords.
         pure (abstractive, keywords)))))
        (\<lambda>_ s. summarizer s = None)" for x n
    by (rule triple_weaken[where P = "\<lambda>s. sentence_encoder s = None"])
       (auto intro!: triple_then_do[OF abstractive_summary_triple]
                     triple_then_do[OF unload_summarizer_triple]
                     triple_then_do[OF extract_keywords_triple] triple_pure)
  from False show ?thesis
    by (auto simp: summarize_section_def Let_def
             intro!: triple_then_do[OF extractive_summary_triple]
                     triple_then_do[OF unload_sentence_encoder_triple] tail)
qed

lemma tripleD:
  assumes "triple P m Q" and "P s" and "m s = (tr, s', r)"
  shows "(\<forall>x. Assign x \<in> set tr \<longrightarrow> \<not> both_resident x) \<and> (\<forall>y. r = Inr y \<longrightarrow> Q y s')"
proof -
  from assms(1,2) have "case m s of (tr, s', r) \<Rightarrow>
           (\<forall>x. Assign x \<in> set tr \<longrightarrow> \<not> both_resident x)
           \<and> (case r of Inl err \<Rightarrow> True | Inr y \<Rightarrow> Q y s')"
    by (simp add: triple_def)
  with assms(3) show ?thesis by (cases r) auto
qed

text \<open>
  What the code does establish. In a call of \<open>summarize_section\<close> that starts with no
  summarizer loaded, as the constructor leaves the object, no state reached after an
  assignment has the sentence encoder and the summarizer both loaded, for every section
  text, section name and behaviour of the model libraries, raising included; and a call
  that returns leaves the summarizer unloaded.
\<close>

lemma residency_from_unloaded:
  assumes "summarizer s = None" and "summarize_section e t name s = (tr, s', r)"
  shows "(\<forall>x. Assign x \<in> set tr \<longrightarrow> \<not> (sentence_encoder x \<noteq> None \<and> summarizer x \<noteq> None))
         \<and> (\<forall>y. r = Inr y \<longrightarrow> summarizer s' = None)"
  using tripleD[OF summarize_section_triple, of s e t name tr s' r] assms
  by (simp add: both_resident_def)

text \<open>
  Whatever the state at entry, a call that enters keyword extraction does so as its
  last step, with the encoder and the summarizer both unloaded.
\<close>

lemma quiet_then_do:
  assumes "quiet m P Q" and "\<And>x. quiet (f x) Q R"
  shows "quiet (then_do m f) P R"
  using assms
  by (fastforce simp: quiet_def then_do_def split: prod.splits sum.splits)

lemma quiet_extractive: "quiet (extractive_summary e t ratio) (\<lambda>s. True) (\<lambda>s. True)"
  by (auto simp: quiet_def extractive_summary_def load_sentence_encoder_def Let_def action_defs
           split: prod.splits sum.splits option.splits fallback.splits if_splits)

lemma quiet_unload_encoder: "quiet unload_sentence_encoder (\<lambda>s. True) (\<lambda>s. sentence_encoder s = None)"
  by (auto simp: quiet_def unload_sentence_encoder_def action_defs
           split: prod.splits sum.splits option.splits if_splits)

lemma quiet_abstractive:
  "quiet (abstractive_summary e t n) (\<lambda>s. sentence_encoder s = None) (\<lambda>s. sentence_encoder s = None)"
  by (auto simp: quiet_def abstractive_summary_def load_summarizer_def Let_def action_defs
           split: prod.splits sum.splits option.splits fallback.splits if_splits)

lemma quiet_unload_summarizer:
  "quiet unload_summarizer (\<lambda>s. sentence_encoder s = None)
     (\<lambda>s. sentence_encoder s = None \<and> summarizer s = None)"
  by (auto simp: quiet_def unload_summarizer_def action_defs
           split: prod.splits sum.splits option.splits if_splits)


lemma then_do_reaches:
  assumes "quiet m P Q" and "P s" and "then_do m f s = (tr, s', r)" and "Invoke Keywords \<in> set tr"
  shows "\<exists>x t1 s1 t2. m s = (t1, s1, Inr x) \<and> Q s1 \<and> f x s1 = (t2, s', r)
            \<and> tr = t1 @ t2 \<and> Invoke Keywords \<notin> set t1 \<and> Invoke Keywords \<in> set t2"
proof -
  obtain t1 s1 r1 where m: "m s = (t1, s1, r1)" by (cases "m s") auto
  with assms(1,2) have q: "Invoke Keywords \<notin> set t1" "\<And>y. r1 = Inr y \<Longrightarrow> Q s1"
    by (auto simp: quiet_def)
  show ?thesis
  proof (cases r1)
    case (Inl err)
    with m assms(3) have "tr = t1" by (simp add: then_do_def)
    with q(1) assms(4) show ?thesis by simp
  next
    case (Inr x)
    obtain t2 s2 r2 where f: "f x s1 = (t2, s2, r2)" by (cases "f x s1") auto
    with m Inr assms(3) have "tr = t1 @ t2" "s' = s2" "r = r2" by (simp_all add: then_do_def)
    with m Inr f q assms(4) show ?thesis by auto
  qed
qed

lemma extract_keywords_run:
  "\<exists>y. extract_keywords e t n s = ([Invoke Keywords], s, Inr y)"
  by (auto simp: extract_keywords_def action_defs split: option.splits)

lemma keywords_after_unload:
  assumes "summarize_section e t name s = (tr, s', r)" and "Invoke Keywords \<in> set tr"
  shows "sentence_encoder s' = None \<and> summarizer s' = None
         \<and> (\<exists>pre. tr = pre @ [Invoke Keywords] \<and> Invoke Keywords \<notin> set pre)"
proof -
  let ?ct = "preprocess_text t"
  let ?max_len = "if name \<in> set [''introduction'', ''conclusion''] then 200 else 150 :: nat"
  let ?k4 = "\<lambda>abstractive. \<lambda>_ :: unit.
      then_do (extract_keywords e abstractive 5) (\<lambda>keywords. pure (abstractive, keywords))"
  let ?k3 = "\<lambda>abstractive. then_do unload_summarizer (?k4 abstractive)"
  let ?k2 = "\<lambda>extractive. \<lambda>_ :: unit. then_do (abstractive_summary e extractive ?max_len) ?k3"
  let ?k1 = "\<lambda>extractive. then_do unload_sentence_encoder (?k2 extractive)"
  have long: "\<not> length (str_split ?ct) < 50"
    using assms by (auto simp: summarize_section_def Let_def pure_def)
  with assms(1) have run: "then_do (extractive_summary e ?ct (2 / 5)) ?k1 s = (tr, s', r)"
    by (simp add: summarize_section_def Let_def)
  from then_do_reaches[OF quiet_extractive _ run assms(2)]
  obtain ex t1 s1 u1 where 1: "?k1 ex s1 = (u1, s', r)" "tr = t1 @ u1"
      "Invoke Keywords \<notin> set t1" "Invoke Keywords \<in> set u1" by auto
  from then_do_reaches[OF quiet_unload_encoder _ 1(1) 1(4)]
  obtain t2 s2 u2 where 2: "sentence_encoder s2 = None" "?k2 ex () s2 = (u2, s', r)" "u1 = t2 @ u2"
      "Invoke Keywords \<notin> set t2" "Invoke Keywords \<in> set u2" by auto
  from then_do_reaches[OF quiet_abstractive 2(1) 2(2) 2(5)]
  obtain ab t3 s3 u3 where 3: "sentence_encoder s3 = None" "?k3 ab s3 = (u3, s', r)" "u2 = t3 @ u3"
      "Invoke Keywords \<notin> set t3" "Invoke Keywords \<in> set u3" by auto
  from then_do_reaches[OF quiet_unload_summarizer 3(1) 3(2) 3(5)]
  obtain t4 s4 u4 where 4: "sentence_encoder s4 = None" "summarizer s4 = None"
      "?k4 ab () s4 = (u4, s', r)" "u3 = t4 @ u4" "Invoke Keywords \<notin> set t4" by auto
  from extract_keywords_run[of e ab 5 s4] 4(3)
  have 5: "u4 = [Invoke Keywords]" "s' = s4" by (auto simp: then_do_def pure_def)
  from 1 2 3 4 5 have "tr = (t1 @ t2 @ t3 @ t4) @ [Invoke Keywords]"
      "Invoke Keywords \<notin> set (t1 @ t2 @ t3 @ t4)" by auto
  with 4 5 show ?thesis by blast
qed

text \<open>
  Claim C9. When the cleaned text has fewer than 50 words, \<open>summarize_section\<close> returns
  the cleaned text and no keywords; its trace is empty, so no stage is invoked and no
  model is loaded, and the state is unchanged.
\<close>

theorem short_section_unchanged:
  "length (str_split (preprocess_text t)) < 50 \<Longrightarrow>
     summarize_section e t name s = ([], s, Inr (preprocess_text t, []))"
  by (simp add: summarize_section_def Let_def pure_def)

text \<open>
  Claim C10. When the text has fewer than 3 sentences, or no sentence passes the
  quality filter, \<open>extractive_summary\<close> returns the text unchanged; the trace holds the
  entry into the stage and no assignment, so the encoder is not loaded, and the state
  is unchanged.
\<close>

theorem extractive_returns_text:
  "length (sent_tokenize e t) < 3 \<or> filter quality_sentence (sent_tokenize e t) = [] \<Longrightarrow>
     extractive_summary e t ratio s = ([Invoke Extractive], s, Inr t)"
  by (auto simp: extractive_summary_def Let_def action_defs)

lemma floor_two_fifths: "nat \<lfloor>of_nat n * (2 / 5 :: rat)\<rfloor> = 2 * n div 5"
proof -
  have "of_nat n * (2 / 5 :: rat) = of_nat (2 * n) / of_nat 5" by simp
  then have "\<lfloor>of_nat n * (2 / 5 :: rat)\<rfloor> = int (2 * n div 5)"
    by (simp only: floor_divide_of_nat_eq)
  then show ?thesis by simp
qed

lemma floor_two_fifths_normal: "nat \<lfloor>of_nat n * 2 / (5 :: rat)\<rfloor> = 2 * n div 5"
  using floor_two_fifths[of n] by simp

lemma select_sentences_indices:
  "\<exists>is. select_sentences (2 / 5) scores qs = map (\<lambda>i. qs ! i) is
        \<and> sorted_wrt (<) is \<and> (\<forall>i \<in> set is. i < length qs)
        \<and> length is = min (length qs) (max 3 (2 * length qs div 5))"
proof -
  let ?n = "length qs"
  let ?k = "max 3 (2 * ?n div 5)"
  let ?argsort = "sort_key scores [0..<?n]"
  let ?top = "drop (length ?argsort - ?k) ?argsort"
  have d: "distinct ?top" by simp
  have sub: "set ?top \<subseteq> {0..<?n}"
    using set_drop_subset[of "length ?argsort - ?k" ?argsort] by simp
  have len: "length ?top = min ?n ?k" by simp
  have "sorted_wrt (<) (sort ?top)" using d by (simp add: strict_sorted_iff)
  moreover have "\<forall>i \<in> set (sort ?top). i < ?n" using sub by auto
  moreover have "length (sort ?top) = min ?n ?k" using len by simp
  moreover have "select_sentences (2 / 5) scores qs = map (\<lambda>i. qs ! i) (sort ?top)"
    by (simp add: select_sentences_def Let_def floor_two_fifths_normal)
  ultimately show ?thesis by blast
qed

text \<open>
  Claim C3, as amended. When the text has at least 3 sentences, of which \<open>n \<ge> 1\<close> pass
  the quality filter, every result that the extractive stage returns with the ratio 0.4
  is made of exactly \<open>min n (max 3 \<lfloor>0.4 n\<rfloor>)\<close> quality sentences, taken at strictly
  increasing positions, that is in the order of the document, and joined by spaces. The
  stage returns whenever the encoder is loaded already, or loads, and encodes the
  sentences without raising.
\<close>

theorem extractive_selection:
  assumes "3 \<le> length (sent_tokenize e t)"
      and "qs = filter quality_sentence (sent_tokenize e t)"
      and "qs \<noteq> []"
  shows "(\<forall>tr s' r. extractive_summary e t (2 / 5) s = (tr, s', Inr r) \<longrightarrow>
            (\<exists>is. r = join '' '' (map (\<lambda>i. qs ! i) is)
                \<and> sorted_wrt (<) is \<and> (\<forall>i \<in> set is. i < length qs)
                \<and> length is = min (length qs) (max 3 (2 * length qs div 5))))
         \<and> ((sentence_encoder s \<noteq> None
               \<or> (encoder_tokenizer_loads e \<and> (encoder_loads e \<or> encoder_fallback e = Succeeds)))
              \<and> encode e qs \<noteq> None \<longrightarrow>
            (\<exists>tr s' r. extractive_summary e t (2 / 5) s = (tr, s', Inr r)))"
proof (intro conjI allI impI)
  fix tr s' r
  assume "extractive_summary e t (2 / 5) s = (tr, s', Inr r)"
  with assms obtain scores where "r = join '' '' (select_sentences (2 / 5) scores qs)"
    by (auto simp: extractive_summary_def Let_def action_defs
             split: option.splits prod.splits sum.splits if_splits)
  with select_sentences_indices[of scores qs]
  show "\<exists>is. r = join '' '' (map (\<lambda>i. qs ! i) is)
            \<and> sorted_wrt (<) is \<and> (\<forall>i \<in> set is. i < length qs)
            \<and> length is = min (length qs) (max 3 (2 * length qs div 5))"
    by auto
next
  assume a: "(sentence_encoder s \<noteq> None
               \<or> (encoder_tokenizer_loads e \<and> (encoder_loads e \<or> encoder_fallback e = Succeeds)))
              \<and> encode e qs \<noteq> None"
  then obtain scores where sc: "encode e qs = Some scores" by auto
  from a have "\<exists>tr s'. load_sentence_encoder e s = (tr, s', Inr ())"
    by (auto simp: load_sentence_encoder_def action_defs)
  then obtain tr0 s0 where "load_sentence_encoder e s = (tr0, s0, Inr ())" by blast
  with assms sc show "\<exists>tr s' r. extractive_summary e t (2 / 5) s = (tr, s', Inr r)"
    by (simp add: extractive_summary_def Let_def action_defs)
qed

subsection \<open>Text without citations, links and figure references\<close>

lemma section_text_eq:
  "join '' '' section_sentences = ''We take the raw text of a paper. We cut the text in to the parts. We rank each part by its own use. We keep the best ones in the set. We feed the set in to the model. It will then make a new short text. We pick the key words out of it. We join all of it in to one page.''"
  by (simp add: section_sentences_def)

lemma quality_section: "filter quality_sentence section_sentences = section_sentences"
  by (simp add: section_sentences_def quality_sentence_def str_split_def isspace_def ord_def)

lemma select_section:
  "select_sentences (2 / 5) (\<lambda>i. sentence_scores ! i) section_sentences =
     [''We cut the text in to the parts.'', ''We keep the best ones in the set.'', ''We pick the key words out of it.'']"
  by code_simp

lemma sub_scan_citation_plain:
  "op \<notin> set s \<Longrightarrow> sub_scan (m_citation op cl) repl prev 0 s = s"
  by (induction s arbitrary: prev) (auto simp: m_citation_def)

lemma sub_scan_url_plain:
  "\<not> contains s ''http'' \<Longrightarrow> sub_scan m_url repl prev 0 s = s"
proof (induction s arbitrary: prev)
  case Nil
  show ?case by simp
next
  case (Cons c cs)
  from Cons.prems have a: "\<not> startswith (c # cs) ''http''" and b: "\<not> contains cs ''http''"
    by (auto split: if_splits)
  from a have "m_url prev (c # cs) = None" by (simp only: m_url_def if_False)
  with Cons.IH[OF b] show ?case by simp
qed

lemma m_email_plain:
  assumes "CHR ''@'' \<notin> set s"
  shows "m_email prev s = None"
proof -
  let ?run = "takeWhile (\<lambda>c. \<not> isspace c) s"
  have "set (butlast (tl ?run)) \<subseteq> set ?run"
    by (cases ?run) (auto dest: in_set_butlastD)
  moreover have "set ?run \<subseteq> set s" by (auto dest: set_takeWhileD)
  ultimately have "CHR ''@'' \<notin> set (butlast (tl ?run))" using assms by blast
  then show ?thesis by (simp add: m_email_def Let_def)
qed

lemma sub_scan_email_plain:
  "CHR ''@'' \<notin> set s \<Longrightarrow> sub_scan m_email repl prev 0 s = s"
proof (induction s arbitrary: prev)
  case Nil
  show ?case by simp
next
  case (Cons c cs)
  from Cons.prems have "m_email prev (c # cs) = None" by (rule m_email_plain)
  with Cons show ?case by simp
qed

lemma ref_tail_plain:
  assumes "\<forall>c \<in> set s. \<not> isdecimal c"
  shows "ref_tail s = None"
proof -
  let ?r = "case s of [] \<Rightarrow> s | c # cs \<Rightarrow> if c = CHR ''.'' then cs else s"
  have "set ?r \<subseteq> set s" by (cases s) auto
  moreover define r' where "r' = dropWhile isspace ?r"
  then have "set r' \<subseteq> set ?r" by (auto dest: set_dropWhileD)
  ultimately have "\<forall>c \<in> set r'. \<not> isdecimal c" using assms by blast
  then have "takeWhile isdecimal r' = []" by (cases r') auto
  then show ?thesis by (simp add: ref_tail_def Let_def r'_def)
qed

lemma first_ref_plain:
  assumes "\<forall>c \<in> set s. \<not> isdecimal c"
  shows "first_ref ws s = None"
proof (induction ws)
  case Nil
  show ?case by simp
next
  case (Cons w ws)
  have "set (drop (length w) s) \<subseteq> set s" by (rule set_drop_subset)
  with assms have "\<forall>c \<in> set (drop (length w) s). \<not> isdecimal c" by blast
  then have "ref_tail (drop (length w) s) = None" by (rule ref_tail_plain)
  with Cons show ?case by simp
qed

lemma sub_scan_figure_plain:
  "\<forall>c \<in> set s. \<not> isdecimal c \<Longrightarrow> sub_scan m_figure repl prev 0 s = s"
proof (induction s arbitrary: prev)
  case Nil
  show ?case by simp
next
  case (Cons c cs)
  from Cons.prems have "m_figure prev (c # cs) = None"
    by (simp only: m_figure_def first_ref_plain if_cancel)
  with Cons show ?case by simp
qed

lemma sub_scan_space_plain:
  assumes "\<forall>c \<in> set s. isspace c \<longrightarrow> c = CHR '' ''" and "\<not> contains s ''  ''"
  shows "sub_scan m_space '' '' prev 0 s = s"
  using assms
proof (induction s arbitrary: prev)
  case Nil
  show ?case by simp
next
  case (Cons c cs)
  from Cons.prems have nc: "\<not> contains cs ''  ''" and ns: "\<not> startswith (c # cs) ''  ''"
    by (auto split: if_splits)
  from Cons.prems(1) have all: "\<forall>c \<in> set cs. isspace c \<longrightarrow> c = CHR '' ''" by simp
  have ih: "sub_scan m_space '' '' (Some c) 0 cs = cs" by (rule Cons.IH[OF all nc])
  show ?case
  proof (cases "isspace c")
    case False
    then have "m_space prev (c # cs) = None" by (simp add: m_space_def)
    with ih show ?thesis by simp
  next
    case True
    with Cons.prems(1) have c: "c = CHR '' ''" by simp
    have "takeWhile isspace cs = []"
    proof (cases cs)
      case Nil
      then show ?thesis by simp
    next
      case (Cons d ds)
      with ns c have "d \<noteq> CHR '' ''" by (auto split: if_splits)
      with all Cons have "\<not> isspace d" by auto
      with Cons show ?thesis by simp
    qed
    with True have "m_space prev (c # cs) = Some (Suc 0)" by (simp add: m_space_def)
    with ih c show ?thesis by simp
  qed
qed

lemma strip_plain:
  assumes "s \<noteq> []" and "\<not> isspace (hd s)" and "\<not> isspace (last s)"
  shows "strip s = s"
proof -
  from assms(1,2) have a: "dropWhile isspace s = s" by (cases s) auto
  from assms(1) have "rev s \<noteq> []" by simp
  moreover from assms(1,3) have "\<not> isspace (hd (rev s))" by (simp add: hd_rev)
  ultimately have "dropWhile isspace (rev s) = rev s" by (cases "rev s") auto
  with a show ?thesis by (simp add: strip_def)
qed

lemma preprocess_text_plain:
  assumes "CHR ''['' \<notin> set t" and "CHR ''('' \<notin> set t" and "\<not> contains t ''http''"
      and "CHR ''@'' \<notin> set t" and "\<forall>c \<in> set t. \<not> isdecimal c"
      and "\<forall>c \<in> set t. isspace c \<longrightarrow> c = CHR '' ''" and "\<not> contains t ''  ''"
      and "t \<noteq> []" and "\<not> isspace (hd t)" and "\<not> isspace (last t)"
  shows "preprocess_text t = t"
  using assms
  by (simp add: preprocess_text_def re_sub_def Let_def sub_scan_citation_plain sub_scan_url_plain
        sub_scan_email_plain sub_scan_figure_plain sub_scan_space_plain strip_plain)

lemma section_plain_chars:
  "CHR ''['' \<notin> set (join '' '' section_sentences)"
  "CHR ''('' \<notin> set (join '' '' section_sentences)"
  "CHR ''@'' \<notin> set (join '' '' section_sentences)"
  "\<not> contains (join '' '' section_sentences) ''http''"
  "\<not> contains (join '' '' section_sentences) ''  ''"
  unfolding section_text_eq by simp_all

lemma section_plain_digits: "\<forall>c \<in> set (join '' '' section_sentences). \<not> isdecimal c"
  unfolding section_text_eq by (simp add: isdecimal_def ord_def)

lemma section_plain_spaces: "\<forall>c \<in> set (join '' '' section_sentences). isspace c \<longrightarrow> c = CHR '' ''"
  unfolding section_text_eq by (simp add: isspace_def ord_def)

lemma section_plain_ends:
  "join '' '' section_sentences \<noteq> []"
  "\<not> isspace (hd (join '' '' section_sentences))"
  "\<not> isspace (last (join '' '' section_sentences))"
  unfolding section_text_eq by (simp_all add: isspace_def ord_def)

lemma preprocess_section: "preprocess_text (join '' '' section_sentences) = join '' '' section_sentences"
  by (intro preprocess_text_plain section_plain_chars section_plain_digits section_plain_spaces section_plain_ends)

lemma preprocess_short: "preprocess_text short_section = ''The encoder is described in of the paper.''"
  by code_simp

lemma words_short: "length (str_split ''The encoder is described in of the paper.'') = 8"
  by (simp add: str_split_def isspace_def ord_def)

lemma words_section: "length (str_split (join '' '' section_sentences)) = 65"
  unfolding section_text_eq by (simp add: str_split_def isspace_def ord_def)

lemma clean_summary_example:
  "clean_summary ''We rank the parts of a paper. We keep'' = ''We rank the parts of a paper.''"
  by (simp add: clean_summary_def Let_def strip_def isspace_def ord_def endswith_def)

subsection \<open>A section of eight sentences, and a short one\<close>

lemma section_length: "length section_sentences = 8"
  by (simp add: section_sentences_def)

lemma section_nonempty: "section_sentences \<noteq> []"
  using section_length by auto

lemma tokenize_section:
  "sent_tokenize (models_example ss) (join '' '' ss) = ss"
  by (simp add: models_example_def tokenize_as_join)

lemma ceiling_two_fifths_eight: "nat \<lceil>(2 / 5 :: rat) * 8\<rceil> = 4"
proof -
  have "\<lceil>(2 / 5 :: rat) * 8\<rceil> = 4" by (rule ceiling_unique) simp_all
  then show ?thesis by simp
qed

lemma extractive_section:
  "extractive_summary (models_example section_sentences) (join '' '' section_sentences) (2 / 5) fresh_state =
     ([Invoke Extractive,
       Assign (fresh_state\<lparr>tokenizer := Some ()\<rparr>),
       Assign (fresh_state\<lparr>tokenizer := Some (), sentence_encoder := Some ()\<rparr>)],
      fresh_state\<lparr>tokenizer := Some (), sentence_encoder := Some ()\<rparr>,
      Inr (join '' '' [''We cut the text in to the parts.'', ''We keep the best ones in the set.'',
                      ''We pick the key words out of it.'']))"
proof -
  have ne: "section_sentences \<noteq> []" using section_length by auto
  show ?thesis
    by (simp add: extractive_summary_def models_example_def tokenize_as_join quality_section
          section_length ne select_section load_sentence_encoder_def action_defs fresh_state_def Let_def
          del: join.simps)
qed


lemma selected_strip:
  "strip (join '' '' [''We cut the text in to the parts.'', ''We keep the best ones in the set.'',
                      ''We pick the key words out of it.'']) \<noteq> []"
  by (simp add: strip_def isspace_def ord_def)

lemma abstractive_section:
  "abstractive_summary (models_example section_sentences)
     (join '' '' [''We cut the text in to the parts.'', ''We keep the best ones in the set.'',
                  ''We pick the key words out of it.'']) 150 fresh_state =
     ([Invoke Abstractive,
       Assign (fresh_state\<lparr>sum_tokenizer := Some ()\<rparr>),
       Assign (fresh_state\<lparr>sum_tokenizer := Some (), summarizer := Some ()\<rparr>)],
      fresh_state\<lparr>sum_tokenizer := Some (), summarizer := Some ()\<rparr>,
      Inr ''We rank the parts of a paper.'')"
  using selected_strip
  by (simp add: abstractive_summary_def models_example_def clean_summary_example
        load_summarizer_def action_defs fresh_state_def Let_def del: join.simps)

lemma unload_encoder_section:
  "unload_sentence_encoder (fresh_state\<lparr>tokenizer := Some (), sentence_encoder := Some ()\<rparr>) =
     ([Assign (fresh_state\<lparr>tokenizer := Some ()\<rparr>), Assign fresh_state, Assign fresh_state],
      fresh_state, Inr ())"
  by (simp add: unload_sentence_encoder_def action_defs fresh_state_def)

lemma unload_summarizer_section:
  "unload_summarizer (fresh_state\<lparr>sum_tokenizer := Some (), summarizer := Some ()\<rparr>) =
     ([Assign (fresh_state\<lparr>sum_tokenizer := Some ()\<rparr>), Assign fresh_state, Assign fresh_state],
      fresh_state, Inr ())"
  by (simp add: unload_summarizer_def action_defs fresh_state_def)

lemma keywords_section:
  "extract_keywords (models_example section_sentences) ''We rank the parts of a paper.'' 5 fresh_state =
     ([Invoke Keywords], fresh_state, Inr [''paper'', ''parts''])"
  by (simp add: extract_keywords_def models_example_def action_defs)

lemma summarize_section_run:
  "summarize_section (models_example section_sentences) (join '' '' section_sentences) ''methodology''
     fresh_state =
     (section_trace, fresh_state, Inr (''We rank the parts of a paper.'', [''paper'', ''parts'']))"
  by (simp add: summarize_section_def preprocess_section words_section Let_def then_do_def pure_def
        extractive_section unload_encoder_section abstractive_section unload_summarizer_section
        keywords_section section_trace_def del: join.simps)

lemma residency_from_unloaded_example:
  "summarizer fresh_state = None
   \<and> summarize_section (models_example section_sentences) (join '' '' section_sentences) ''methodology''
       fresh_state =
       (section_trace, fresh_state, Inr (''We rank the parts of a paper.'', [''paper'', ''parts'']))
   \<and> \<not> (\<exists>x. Assign x \<in> set section_trace \<and> sentence_encoder x \<noteq> None \<and> summarizer x \<noteq> None)"
  using residency_from_unloaded
          [of fresh_state "models_example section_sentences" "join '' '' section_sentences"
              "''methodology''" section_trace fresh_state
              "Inr (''We rank the parts of a paper.'', [''paper'', ''parts''])"]
        summarize_section_run
  by (simp add: fresh_state_def del: join.simps)

theorem short_section_unchanged_witness:
  "length (str_split (preprocess_text short_section)) = 8
   \<and> summarize_section (models_example []) short_section ''abstract'' fresh_state =
       ([], fresh_state, Inr (''The encoder is described in of the paper.'', []))"
  using short_section_unchanged [of short_section "models_example []" "''abstract''" fresh_state]
  by (simp add: preprocess_short words_short)

theorem extractive_returns_text_witness:
  "length (sent_tokenize (models_example (take 2 section_sentences))
             (join '' '' (take 2 section_sentences))) = 2
   \<and> extractive_summary (models_example (take 2 section_sentences))
         (join '' '' (take 2 section_sentences)) (2 / 5) fresh_state =
       ([Invoke Extractive], fresh_state, Inr (join '' '' (take 2 section_sentences)))"
  using extractive_returns_text
          [of "models_example (take 2 section_sentences)" "join '' '' (take 2 section_sentences)"
              "2 / 5" fresh_state]
  by (simp add: models_example_def tokenize_as_join section_length del: join.simps)

theorem extractive_selection_witness:
  "length (filter quality_sentence
             (sent_tokenize (models_example section_sentences) (join '' '' section_sentences))) = 8
   \<and> (\<exists>tr s'. extractive_summary (models_example section_sentences) (join '' '' section_sentences)
                  (2 / 5) fresh_state =
                (tr, s', Inr (join '' '' [''We cut the text in to the parts.'',
                                         ''We keep the best ones in the set.'',
                                         ''We pick the key words out of it.''])))
   \<and> (\<exists>is. join '' '' [''We cut the text in to the parts.'', ''We keep the best ones in the set.'',
                        ''We pick the key words out of it.''] =
             join '' '' (map (\<lambda>i. section_sentences ! i) is)
           \<and> sorted_wrt (<) is \<and> (\<forall>i \<in> set is. i < 8) \<and> length is = 3)"
  using extractive_selection
          [of "models_example section_sentences" "join '' '' section_sentences" section_sentences
              fresh_state]
        extractive_section
  by (simp add: tokenize_section quality_section section_length section_nonempty del: join.simps)

text \<open>
  Claim C3 as stated, with the ceiling of \<open>0.4 n\<close>, fails on eight quality sentences:
  the stage selects three of them, and the claimed number is four.
\<close>

theorem extractive_selection_counterexample:
  "length (filter quality_sentence
             (sent_tokenize (models_example section_sentences) (join '' '' section_sentences))) = 8
   \<and> extractive_summary (models_example section_sentences) (join '' '' section_sentences) (2 / 5)
         fresh_state =
       ([Invoke Extractive,
         Assign (fresh_state\<lparr>tokenizer := Some ()\<rparr>),
         Assign (fresh_state\<lparr>tokenizer := Some (), sentence_encoder := Some ()\<rparr>)],
        fresh_state\<lparr>tokenizer := Some (), sentence_encoder := Some ()\<rparr>,
        Inr (join '' '' (select_sentences (2 / 5) (\<lambda>i. sentence_scores ! i) section_sentences)))
   \<and> length (select_sentences (2 / 5) (\<lambda>i. sentence_scores ! i) section_sentences) = 3
   \<and> min 8 (max 3 (nat \<lceil>(2 / 5 :: rat) * 8\<rceil>)) = 4"
  by (simp only: extractive_section select_section tokenize_section quality_section section_length
        ceiling_two_fifths_eight) simp

subsection \<open>A call after a failed generation\<close>

lemma failed_call:
  "summarize_section generation_fails (join '' '' section_sentences) ''methodology'' fresh_state =
     ([Invoke Extractive,
       Assign (fresh_state\<lparr>tokenizer := Some ()\<rparr>),
       Assign (fresh_state\<lparr>tokenizer := Some (), sentence_encoder := Some ()\<rparr>),
       Assign (fresh_state\<lparr>tokenizer := Some ()\<rparr>),
       Assign fresh_state,
       Assign fresh_state,
       Invoke Abstractive,
       Assign (fresh_state\<lparr>sum_tokenizer := Some ()\<rparr>),
       Assign summarizer_left],
      summarizer_left, Inl ModelError)"
  using selected_strip section_nonempty
  by (simp add: summarize_section_def preprocess_section words_section Let_def
        extractive_summary_def abstractive_summary_def generation_fails_def models_example_def
        tokenize_as_join quality_section section_length select_section
        load_sentence_encoder_def unload_sentence_encoder_def load_summarizer_def
        action_defs fresh_state_def summarizer_left_def del: join.simps)

lemma next_call:
  "summarize_section generation_fails (join '' '' section_sentences) ''methodology'' summarizer_left =
     ([Invoke Extractive,
       Assign (summarizer_left\<lparr>tokenizer := Some ()\<rparr>),
       Assign (summarizer_left\<lparr>tokenizer := Some (), sentence_encoder := Some ()\<rparr>),
       Assign (summarizer_left\<lparr>tokenizer := Some ()\<rparr>),
       Assign summarizer_left,
       Assign summarizer_left,
       Invoke Abstractive],
      summarizer_left, Inl ModelError)"
  using selected_strip section_nonempty
  by (simp add: summarize_section_def preprocess_section words_section Let_def
        extractive_summary_def abstractive_summary_def generation_fails_def models_example_def
        tokenize_as_join quality_section section_length select_section
        load_sentence_encoder_def unload_sentence_encoder_def load_summarizer_def
        action_defs fresh_state_def summarizer_left_def del: join.simps)

text \<open>
  Claim C1. The claim has the encoder and the summarizer never both loaded during a
  call of \<open>summarize_section\<close>. The code unloads the summarizer after the abstractive
  stage only when that stage returns. When generation raises, the call ends with the
  summarizer loaded, and the next call on the same object, here with the same text,
  loads the encoder beside it: the second state that this call assigns has both.
\<close>

theorem both_resident_after_failed_generation:
  "summarize_section generation_fails (join '' '' section_sentences) ''methodology'' fresh_state =
     ([Invoke Extractive,
       Assign (fresh_state\<lparr>tokenizer := Some ()\<rparr>),
       Assign (fresh_state\<lparr>tokenizer := Some (), sentence_encoder := Some ()\<rparr>),
       Assign (fresh_state\<lparr>tokenizer := Some ()\<rparr>),
       Assign fresh_state,
       Assign fresh_state,
       Invoke Abstractive,
       Assign (fresh_state\<lparr>sum_tokenizer := Some ()\<rparr>),
       Assign summarizer_left],
      summarizer_left, Inl ModelError)
   \<and> summarize_section generation_fails (join '' '' section_sentences) ''methodology'' summarizer_left =
     ([Invoke Extractive,
       Assign (summarizer_left\<lparr>tokenizer := Some ()\<rparr>),
       Assign (summarizer_left\<lparr>tokenizer := Some (), sentence_encoder := Some ()\<rparr>),
       Assign (summarizer_left\<lparr>tokenizer := Some ()\<rparr>),
       Assign summarizer_left,
       Assign summarizer_left,
       Invoke Abstractive],
      summarizer_left, Inl ModelError)
   \<and> sentence_encoder (summarizer_left\<lparr>tokenizer := Some (), sentence_encoder := Some ()\<rparr>) = Some ()
   \<and> summarizer (summarizer_left\<lparr>tokenizer := Some (), sentence_encoder := Some ()\<rparr>) = Some ()"
  by (simp only: failed_call next_call) (simp add: summarizer_left_def)

end
